theory Spec2Isabelle
  imports Complex_Main "HOL-Library.Word"
begin

section \<open>Audio buffers and their validation (src/audio)\<close>

text \<open>
  \<^verbatim>\<open>AudioFormat\<close> (types.py) is a string enum; \<^verbatim>\<open>AudioData\<close> is a dataclass whose
  \<^verbatim>\<open>duration_ms\<close> is an optional float.  Floats are modelled by exact rationals: the only
  float operations validation performs are comparisons and the division of the byte count
  by \<open>1024 * 1024\<close>, a power of two, which is exact for every size below \<open>2 ^ 53\<close>.
\<close>

datatype AudioFormat = WAV | MP3 | FLAC | AIFF | PCM

fun format_value :: "AudioFormat \<Rightarrow> string" where
  "format_value WAV = ''wav''"
| "format_value MP3 = ''mp3''"
| "format_value FLAC = ''flac''"
| "format_value AIFF = ''aiff''"
| "format_value PCM = ''pcm''"

record AudioData =
  data :: "8 word list"
  sample_rate :: int
  format :: AudioFormat
  channels :: int
  duration_ms :: "rat option"

datatype audio_error =
    ValueError string
  | AudioTooShortError rat rat
  | AudioTooLongError rat rat
  | AudioFormatError string
  | AudioNormalizationError string

text \<open>\<^verbatim>\<open>AudioData.__post_init__\<close>: the constructor raises on a non-positive rate or channel
  count and on empty data.\<close>

definition new_AudioData ::
  "8 word list \<Rightarrow> int \<Rightarrow> AudioFormat \<Rightarrow> int \<Rightarrow> rat option \<Rightarrow> audio_error + AudioData" where
  "new_AudioData d sr f ch dur =
     (if sr \<le> 0 then Inl (ValueError ''Invalid sample_rate'')
      else if ch \<le> 0 then Inl (ValueError ''Invalid channels'')
      else if d = [] then Inl (ValueError ''Audio data cannot be empty'')
      else Inr \<lparr>data = d, sample_rate = sr, format = f, channels = ch, duration_ms = dur\<rparr>)"

definition size_bytes :: "AudioData \<Rightarrow> nat" where
  "size_bytes a = length (data a)"

definition WHISPER_SAMPLE_RATE :: int where "WHISPER_SAMPLE_RATE = 16000"
definition WHISPER_CHANNELS :: int where "WHISPER_CHANNELS = 1"
definition WHISPER_MAX_FILE_SIZE_MB :: rat where "WHISPER_MAX_FILE_SIZE_MB = 25"
definition WHISPER_MIN_DURATION_MS :: rat where "WHISPER_MIN_DURATION_MS = 100"

text \<open>
  \<^verbatim>\<open>validate_audio_for_whisper\<close>.  The duration check is guarded by the Python truthiness
  of \<^verbatim>\<open>audio.duration_ms\<close>: \<^verbatim>\<open>None\<close> and \<^verbatim>\<open>0.0\<close> are false.
\<close>

definition duration_too_short :: "rat option \<Rightarrow> rat option" where
  "duration_too_short dur =
     (case dur of
        None \<Rightarrow> None
      | Some d \<Rightarrow> if d \<noteq> 0 \<and> d < WHISPER_MIN_DURATION_MS then Some d else None)"

definition validate_audio_for_whisper :: "AudioData \<Rightarrow> audio_error + unit" where
  "validate_audio_for_whisper audio =
     (case duration_too_short (duration_ms audio) of
        Some d \<Rightarrow> Inl (AudioTooShortError d WHISPER_MIN_DURATION_MS)
      | None \<Rightarrow>
          let size_mb = rat_of_nat (size_bytes audio) / (1024 * 1024) in
          if size_mb > WHISPER_MAX_FILE_SIZE_MB
          then Inl (AudioTooLongError size_mb WHISPER_MAX_FILE_SIZE_MB)
          else if format audio \<notin> set [WAV, FLAC, MP3]
          then Inl (AudioFormatError
                 (''Whisper requires WAV/FLAC/MP3, got '' @ format_value (format audio)))
          else Inr ())"

text \<open>
  \<^verbatim>\<open>normalize_for_whisper\<close>.  The sample pipeline of the slow path
  (\<^verbatim>\<open>_parse_audio_to_samples\<close>, \<^verbatim>\<open>_convert_to_mono\<close>, \<^verbatim>\<open>_resample\<close>) computes on floats and
  is taken as the parameter \<open>to_samples\<close>: it either raises or yields the resampled samples;
  \<open>samples_to_wav\<close> stands for \<^verbatim>\<open>_samples_to_wav\<close>.  The handler at the end of the function
  re-raises the three validation errors unchanged and wraps every other exception in
  \<^verbatim>\<open>AudioNormalizationError\<close>.
\<close>

fun reraise :: "audio_error \<Rightarrow> audio_error" where
  "reraise (AudioTooShortError d m) = AudioTooShortError d m"
| "reraise (AudioTooLongError s m) = AudioTooLongError s m"
| "reraise (AudioFormatError msg) = AudioFormatError msg"
| "reraise (ValueError msg) = AudioNormalizationError (''Failed to normalize audio: '' @ msg)"
| "reraise (AudioNormalizationError msg) = AudioNormalizationError (''Failed to normalize audio: '' @ msg)"

definition normalize_for_whisper ::
  "(AudioData \<Rightarrow> int \<Rightarrow> audio_error + 's list) \<Rightarrow> ('s list \<Rightarrow> int \<Rightarrow> 8 word list) \<Rightarrow>
   AudioData \<Rightarrow> int \<Rightarrow> audio_error + AudioData" where
  "normalize_for_whisper to_samples samples_to_wav audio bits_per_sample =
     (if sample_rate audio = WHISPER_SAMPLE_RATE \<and> channels audio = WHISPER_CHANNELS
         \<and> format audio = WAV
      then (case validate_audio_for_whisper audio of
              Inl e \<Rightarrow> Inl (reraise e)
            | Inr _ \<Rightarrow> Inr audio)
      else (case to_samples audio bits_per_sample of
              Inl e \<Rightarrow> Inl (reraise e)
            | Inr samples \<Rightarrow>
                let wav_data = samples_to_wav samples WHISPER_SAMPLE_RATE;
                    dur = (rat_of_nat (length samples) / rat_of_int WHISPER_SAMPLE_RATE) * 1000
                in (case new_AudioData wav_data WHISPER_SAMPLE_RATE WAV WHISPER_CHANNELS (Some dur) of
                      Inl e \<Rightarrow> Inl (reraise e)
                    | Inr normalized \<Rightarrow>
                        (case validate_audio_for_whisper normalized of
                           Inl e \<Rightarrow> Inl (reraise e)
                         | Inr _ \<Rightarrow> Inr normalized))))"


section \<open>Python strings\<close>

text \<open>
  Texts are lists of 8-bit characters read as the code points U+0000 to U+00FF.  On that
  range \<^verbatim>\<open>str.isspace\<close> (also the regex class \<^verbatim>\<open>\s\<close>) holds for TAB to CR, for the
  separators 0x1C to 0x1F, for the space, for NEL (0x85) and for the no-break space (0xA0);
  \<^verbatim>\<open>str.isupper\<close> of one character holds for \<open>A\<close> to \<open>Z\<close> and for the upper-case letters
  of Latin-1; \<^verbatim>\<open>str.lower\<close> adds 32 to exactly those; the regex class \<^verbatim>\<open>\d\<close> holds for
  \<open>0\<close> to \<open>9\<close>.
\<close>

definition isspace :: "char \<Rightarrow> bool" where
  "isspace c = (let n = (of_char c :: nat) in
     (9 \<le> n \<and> n \<le> 13) \<or> (28 \<le> n \<and> n \<le> 32) \<or> n = 133 \<or> n = 160)"

definition isupper :: "char \<Rightarrow> bool" where
  "isupper c = (let n = (of_char c :: nat) in
     (65 \<le> n \<and> n \<le> 90) \<or> (192 \<le> n \<and> n \<le> 214) \<or> (216 \<le> n \<and> n \<le> 222))"

definition isdigit :: "char \<Rightarrow> bool" where
  "isdigit c = (let n = (of_char c :: nat) in 48 \<le> n \<and> n \<le> 57)"

definition lower_char :: "char \<Rightarrow> char" where
  "lower_char c = (if isupper c then char_of ((of_char c :: nat) + 32) else c)"

definition lower :: "string \<Rightarrow> string" where
  "lower s = map lower_char s"

definition lstrip :: "string \<Rightarrow> string" where
  "lstrip s = dropWhile isspace s"

definition rstrip :: "string \<Rightarrow> string" where
  "rstrip s = rev (dropWhile isspace (rev s))"

definition strip :: "string \<Rightarrow> string" where
  "strip s = rstrip (lstrip s)"

definition endswith :: "string \<Rightarrow> string \<Rightarrow> bool" where
  "endswith s suffix = (take (length suffix) (rev s) = rev suffix)"

text \<open>\<^verbatim>\<open>sub in s\<close> for strings.\<close>

fun contains :: "string \<Rightarrow> string \<Rightarrow> bool" where
  "contains sub [] = (sub = [])"
| "contains sub (c # cs) = (take (length sub) (c # cs) = sub \<or> contains sub cs)"

text \<open>\<^verbatim>\<open>" ".join(parts)\<close>.\<close>

fun join_space :: "string list \<Rightarrow> string" where
  "join_space [] = []"
| "join_space [s] = s"
| "join_space (s # t # ss) = s @ '' '' @ join_space (t # ss)"

section \<open>The basic sentence chunker (src/llm/chunker.py)\<close>

definition terminators :: "char list" where
  "terminators = [CHR ''.'', CHR ''!'', CHR ''?'']"

definition abbreviations :: "string list" where
  "abbreviations =
     [''mr.'', ''mrs.'', ''ms.'', ''dr.'', ''prof.'', ''sr.'', ''jr.'',
      ''i.e.'', ''e.g.'', ''etc.'', ''vs.'', ''inc.'', ''ltd.'', ''corp.'']"

definition has_sentence_boundary :: "string \<Rightarrow> bool" where
  "has_sentence_boundary text = list_ex (\<lambda>term. term \<in> set text) terminators"

text \<open>The loop of \<^verbatim>\<open>_extract_sentence\<close> over the terminator positions, in order.\<close>

fun check_positions :: "int \<Rightarrow> string \<Rightarrow> nat list \<Rightarrow> string" where
  "check_positions msl text [] = []"
| "check_positions msl text (pos # ps) =
     (let sentence = strip (take (pos + 1) text);
          lower_sentence = lower sentence
      in if list_ex (\<lambda>abbr. endswith lower_sentence abbr) abbreviations
         then check_positions msl text ps
         else if int (length sentence) < msl
         then check_positions msl text ps
         else sentence)"

definition extract_sentence :: "int \<Rightarrow> string \<Rightarrow> string" where
  "extract_sentence msl text =
     check_positions msl text
       (filter (\<lambda>i. text ! i \<in> set terminators) [0..<length text])"

text \<open>
  \<^verbatim>\<open>chunk_stream\<close>: the loop over the tokens yields the sentences found so far and leaves the
  buffer; when the token stream is exhausted the stripped buffer is yielded, if not empty.
  \<open>msl\<close> is \<^verbatim>\<open>min_sentence_length\<close>.
\<close>

fun chunk_tokens :: "int \<Rightarrow> string \<Rightarrow> string list \<Rightarrow> string list \<times> string" where
  "chunk_tokens msl buffer [] = ([], buffer)"
| "chunk_tokens msl buffer (token # rest) =
     (let buffer1 = buffer @ token in
      if has_sentence_boundary buffer1
      then (let sentence = extract_sentence msl buffer1 in
            if sentence \<noteq> [] \<and> msl \<le> int (length sentence)
            then (case chunk_tokens msl (lstrip (drop (length sentence) buffer1)) rest of
                    (out, b) \<Rightarrow> (sentence # out, b))
            else chunk_tokens msl buffer1 rest)
      else chunk_tokens msl buffer1 rest)"

definition final_sentence :: "string \<Rightarrow> string list" where
  "final_sentence buffer = (if strip buffer \<noteq> [] then [strip buffer] else [])"

definition chunk_stream :: "int \<Rightarrow> string list \<Rightarrow> string list" where
  "chunk_stream msl token_stream =
     (case chunk_tokens msl [] token_stream of
        (out, buffer) \<Rightarrow> out @ final_sentence buffer)"

section \<open>The sentence chunker with edge-case rules (src/llm/chunker_fixed.py)\<close>

definition abbreviations_fixed :: "string list" where
  "abbreviations_fixed =
     [''mr'', ''mrs'', ''ms'', ''dr'', ''prof'', ''sr'', ''jr'',
      ''i.e'', ''e.g'', ''etc'', ''vs'', ''inc'', ''ltd'', ''corp'',
      ''st'', ''ave'', ''blvd'', ''dept'', ''fig'', ''vol'', ''no'']"

definition is_inside_quotes :: "string \<Rightarrow> bool" where
  "is_inside_quotes text =
     (let double_quotes = count_list text (CHR 0x22) mod 2;
          single_quotes = count_list text (CHR 0x27) mod 2
      in double_quotes \<noteq> 0 \<or> single_quotes \<noteq> 0)"

text \<open>
  Without \<^verbatim>\<open>re.MULTILINE\<close> the anchor \<^verbatim>\<open>$\<close> matches at the end of the string and also just
  before a newline that ends the string: a pattern ending in \<^verbatim>\<open>$\<close> is tried against the
  text and, when the text ends with a newline, against the text without it.
\<close>

definition dollar_ends :: "string \<Rightarrow> string list" where
  "dollar_ends text =
     text # (if text \<noteq> [] \<and> last text = CHR 0x0A then [butlast text] else [])"

text \<open>\<^verbatim>\<open>\d+\.\d*\<close> up to the end of \<open>t\<close>: behind the trailing digits stands a dot, and a
  digit stands before that dot.\<close>

definition decimal_tail :: "string \<Rightarrow> bool" where
  "decimal_tail t =
     (case dropWhile isdigit (rev t) of
        [] \<Rightarrow> False
      | c # r \<Rightarrow> c = CHR ''.'' \<and> (case r of [] \<Rightarrow> False | d # _ \<Rightarrow> isdigit d))"

definition ends_with_decimal :: "string \<Rightarrow> bool" where
  "ends_with_decimal text = list_ex decimal_tail (dollar_ends text)"

text \<open>\<^verbatim>\<open>(www\.|https?://)[^\s]*\.?\<close> up to the end of \<open>t\<close>, ignoring case: the longest
  suffix of \<open>t\<close> without whitespace contains one of the three prefixes.\<close>

definition url_tail :: "string \<Rightarrow> bool" where
  "url_tail t =
     (let tail = lower (rev (takeWhile (\<lambda>c. \<not> isspace c) (rev t)))
      in contains ''www.'' tail \<or> contains ''http://'' tail \<or> contains ''https://'' tail)"

definition ends_with_url :: "string \<Rightarrow> bool" where
  "ends_with_url text = list_ex url_tail (dollar_ends text)"

definition ends_with_incomplete_ellipsis :: "string \<Rightarrow> bool" where
  "ends_with_incomplete_ellipsis text = (endswith text ''.'' \<or> endswith text ''..'')"

definition ends_with_abbreviation :: "string \<Rightarrow> bool" where
  "ends_with_abbreviation text =
     (let text_lower = rstrip (lower text)
      in list_ex (\<lambda>abbr. endswith text_lower (abbr @ ''.'')) abbreviations_fixed)"

definition is_false_boundary :: "string \<Rightarrow> bool" where
  "is_false_boundary sentence =
     (let sentence_lower = strip (lower sentence)
      in if list_ex (\<lambda>abbr. endswith sentence_lower (abbr @ ''.'')) abbreviations_fixed then True
         else if ends_with_decimal sentence then True
         else if ends_with_url sentence then True
         else False)"

text \<open>
  The character loop of \<^verbatim>\<open>_extract_sentences\<close>.  As in the source, the look-ahead is
  \<^verbatim>\<open>text[len(current):]\<close>, an index into the whole text although \<^verbatim>\<open>current\<close> restarts
  empty after every split.
\<close>

definition peek_ahead :: "string \<Rightarrow> bool" where
  "peek_ahead remaining =
     (case remaining of
        [] \<Rightarrow> True
      | c # r \<Rightarrow> (case r of [] \<Rightarrow> False | d # _ \<Rightarrow> isspace c \<and> isupper d))"

fun split_chars :: "int \<Rightarrow> string \<Rightarrow> string list \<Rightarrow> string \<Rightarrow> string \<Rightarrow> string list \<times> string" where
  "split_chars msl text sentences current [] = (sentences, current)"
| "split_chars msl text sentences current (char # rest) =
     (let current1 = current @ [char] in
      if char \<in> set ''.!?'' \<and> msl \<le> int (length current1)
      then (if peek_ahead (drop (length current1) text)
            then (if is_false_boundary current1
                  then split_chars msl text sentences current1 rest
                  else split_chars msl text (sentences @ [strip current1]) [] rest)
            else split_chars msl text sentences current1 rest)
      else split_chars msl text sentences current1 rest)"

definition extract_sentences :: "int \<Rightarrow> string \<Rightarrow> string list" where
  "extract_sentences msl text =
     (if text = [] then []
      else if is_inside_quotes text then [text]
      else if ends_with_decimal text then [text]
      else if ends_with_url text then [text]
      else if ends_with_incomplete_ellipsis text then [text]
      else if ends_with_abbreviation text then [text]
      else (case split_chars msl text [] [] text of
              (sentences, current) \<Rightarrow>
                (let sentences1 = (if current \<noteq> [] then sentences @ [current] else sentences)
                 in if sentences1 \<noteq> [] then sentences1 else [text])))"

fun chunk_tokens_fixed :: "int \<Rightarrow> string \<Rightarrow> string list \<Rightarrow> string list \<times> string" where
  "chunk_tokens_fixed msl buffer [] = ([], buffer)"
| "chunk_tokens_fixed msl buffer (token # rest) =
     (let buffer1 = buffer @ token;
          sentences = extract_sentences msl buffer1
      in if sentences \<noteq> []
         then (case chunk_tokens_fixed msl (last sentences) rest of
                 (out, b) \<Rightarrow>
                   (filter (\<lambda>sentence. msl \<le> int (length sentence)) (butlast sentences) @ out, b))
         else chunk_tokens_fixed msl buffer1 rest)"

definition chunk_stream_fixed :: "int \<Rightarrow> string list \<Rightarrow> string list" where
  "chunk_stream_fixed msl token_stream =
     (case chunk_tokens_fixed msl [] token_stream of
        (out, buffer) \<Rightarrow> out @ final_sentence buffer)"

text \<open>
  A buffer on which \<^verbatim>\<open>_extract_sentences\<close> finds nothing to split whatever the minimum
  sentence length: it is empty, or one of the five rules holds it back, or the character
  loop run without a length bound finds no boundary.  \<open>all_prefixes\<close> lists the prefixes
  of a text, the buffers a stream of its tokens can go through before the first split.
\<close>

definition holds_back :: "string \<Rightarrow> bool" where
  "holds_back text =
     (text = [] \<or> is_inside_quotes text \<or> ends_with_decimal text \<or> ends_with_url text
      \<or> ends_with_incomplete_ellipsis text \<or> ends_with_abbreviation text
      \<or> fst (split_chars 0 text [] [] text) = [])"

definition all_prefixes :: "string \<Rightarrow> string list" where
  "all_prefixes text = map (\<lambda>k. take k text) [0..<Suc (length text)]"

text \<open>One character per token.\<close>

definition chars :: "string \<Rightarrow> string list" where
  "chars text = map (\<lambda>c. [c]) text"


section \<open>Conversation history (src/llm/claude_api.py)\<close>

record message =
  role :: string
  content :: string

definition MAX_HISTORY_TURNS :: nat where "MAX_HISTORY_TURNS = 50"

text \<open>\<^verbatim>\<open>history[-MAX_HISTORY_TURNS:]\<close>: the last 50 entries.\<close>

definition last_turns :: "message list \<Rightarrow> message list" where
  "last_turns history = drop (length history - MAX_HISTORY_TURNS) history"

text \<open>
  The first step of \<^verbatim>\<open>query_stream\<close>: the user message is appended, and the history is
  trimmed when it has become longer than the bound.
\<close>

definition append_user :: "string \<Rightarrow> message list \<Rightarrow> message list" where
  "append_user text history =
     (let history1 = history @ [\<lparr>role = ''user'', content = text\<rparr>]
      in if length history1 > MAX_HISTORY_TURNS then last_turns history1 else history1)"

text \<open>
  \<^verbatim>\<open>query_stream\<close> as far as the history goes (no observer attached).  The streaming call of
  the API client is the parameter \<open>stream\<close>: from the messages sent it yields the text
  chunks received and the exception that ended the stream, if any.  Only a stream that
  ends normally is followed by the append of the assistant's response.
\<close>

definition query_stream ::
  "(message list \<Rightarrow> string list \<times> 'x option) \<Rightarrow> string \<Rightarrow> message list \<Rightarrow>
   string list \<times> 'x option \<times> message list" where
  "query_stream stream text history =
     (let history1 = append_user text history
      in case stream history1 of
           (chunks, Some e) \<Rightarrow> (chunks, Some e, history1)
         | (chunks, None) \<Rightarrow>
             (chunks, None, history1 @ [\<lparr>role = ''assistant'', content = concat chunks\<rparr>]))"

section \<open>Retry with exponential backoff (src/core/retry.py)\<close>

record RetryConfig =
  max_attempts :: int
  initial_delay_ms :: rat
  max_delay_ms :: rat
  exponential_base :: rat
  jitter :: bool

text \<open>
  \<^verbatim>\<open>exponential_base ** attempt\<close> on floats raises \<^verbatim>\<open>OverflowError\<close> when the power leaves
  the range of the floats, whose largest value is \<open>(2 ^ 53 - 1) * 2 ^ 971\<close>; within the
  range the value is taken exact.  The attempt number is a loop index, hence natural.
\<close>

definition FLOAT_MAX :: rat where
  "FLOAT_MAX = (2 ^ 53 - 1) * 2 ^ 971"

definition float_pow :: "rat \<Rightarrow> nat \<Rightarrow> rat option" where
  "float_pow base n = (if FLOAT_MAX < \<bar>base ^ n\<bar> then None else Some (base ^ n))"

text \<open>\<^verbatim>\<open>get_delay_ms\<close>: \<open>None\<close> stands for the \<^verbatim>\<open>OverflowError\<close> of the power, which is
  computed before the cap is applied; \<open>rnd\<close> is the value \<^verbatim>\<open>random.random()\<close> returns.\<close>

definition get_delay_ms :: "RetryConfig \<Rightarrow> nat \<Rightarrow> rat \<Rightarrow> rat option" where
  "get_delay_ms config attempt rnd =
     (case float_pow (exponential_base config) attempt of
        None \<Rightarrow> None
      | Some p \<Rightarrow>
          (let delay = initial_delay_ms config * p;
               delay1 = min delay (max_delay_ms config)
           in if jitter config then Some (delay1 * (1 + (rnd - 1 / 2) * (1 / 2)))
              else Some delay1))"

text \<open>
  \<^verbatim>\<open>retry_async\<close>.  The operation is a state transformer: called in state \<open>s\<close> it raises
  (\<open>Inl\<close>) or returns (\<open>Inr\<close>) and leaves a new state.  \<open>func_name\<close> is the attribute
  \<^verbatim>\<open>func.__name__\<close>, which both log messages of the handler read, and \<open>None\<close> for a
  callable without it (a \<^verbatim>\<open>functools.partial\<close>, say), for which reading it raises
  \<^verbatim>\<open>AttributeError\<close>.  \<open>retryable\<close> stands for the \<^verbatim>\<open>except retryable_exceptions\<close> clause.
  The callback \<open>on_retry\<close> is optional and, being arbitrary code, may itself raise
  (\<open>Some\<close>).  An exception raised inside the handler, by the delay computation, by a log
  message or by the callback, leaves \<^verbatim>\<open>retry_async\<close> in place of the operation's exception.
  The trace counts the invocations of the operation and lists the delays slept and the
  calls of the callback.
\<close>

datatype 'e retry_error = Propagated 'e | RetryLogicError | OverflowError | AttributeError

record 'e retry_trace =
  invocations :: nat
  slept_ms :: "rat list"
  notified :: "('e \<times> nat) list"

definition invoked :: "'e retry_trace \<Rightarrow> 'e retry_trace" where
  "invoked tr = tr\<lparr>invocations := invocations tr + 1\<rparr>"

text \<open>The part of the handler that runs before a retry, after the delay has been
  computed: the warning is logged, the callback called, and the delay slept.\<close>

definition before_retry ::
  "string option \<Rightarrow> ('e \<Rightarrow> nat \<Rightarrow> 'e option) option \<Rightarrow> 'e \<Rightarrow> nat \<Rightarrow> rat \<Rightarrow> 'e retry_trace \<Rightarrow>
   'e retry_error + 'e retry_trace" where
  "before_retry func_name on_retry e attempt delay_ms tr =
     (case func_name of
        None \<Rightarrow> Inl AttributeError
      | Some name \<Rightarrow>
          (case on_retry of
             None \<Rightarrow> Inr (tr\<lparr>slept_ms := slept_ms tr @ [delay_ms]\<rparr>)
           | Some callback \<Rightarrow>
               (case callback e (attempt + 1) of
                  Some e1 \<Rightarrow> Inl (Propagated e1)
                | None \<Rightarrow>
                    Inr (tr\<lparr>notified := notified tr @ [(e, attempt + 1)],
                            slept_ms := slept_ms tr @ [delay_ms]\<rparr>))))"

function retry_loop ::
  "RetryConfig \<Rightarrow> string option \<Rightarrow> ('s \<Rightarrow> ('e + 'a) \<times> 's) \<Rightarrow> ('e \<Rightarrow> bool) \<Rightarrow>
   ('e \<Rightarrow> nat \<Rightarrow> 'e option) option \<Rightarrow> (nat \<Rightarrow> rat) \<Rightarrow> nat \<Rightarrow> 'e option \<Rightarrow> 'e retry_trace \<Rightarrow> 's \<Rightarrow>
   ('e retry_error + 'a) \<times> 'e retry_trace \<times> 's" where
  "retry_loop config func_name func retryable on_retry rnd attempt last_exception tr s =
     (if int attempt < max_attempts config
      then (case func s of
              (Inr v, s1) \<Rightarrow> (Inr v, invoked tr, s1)
            | (Inl e, s1) \<Rightarrow>
                if retryable e
                then (if int attempt = max_attempts config - 1
                      then (case func_name of
                              None \<Rightarrow> (Inl AttributeError, invoked tr, s1)
                            | Some name \<Rightarrow> (Inl (Propagated e), invoked tr, s1))
                      else (case get_delay_ms config attempt (rnd attempt) of
                              None \<Rightarrow> (Inl OverflowError, invoked tr, s1)
                            | Some delay_ms \<Rightarrow>
                                (case before_retry func_name on_retry e attempt delay_ms (invoked tr) of
                                   Inl err \<Rightarrow> (Inl err, invoked tr, s1)
                                 | Inr tr1 \<Rightarrow>
                                     retry_loop config func_name func retryable on_retry rnd
                                       (Suc attempt) (Some e) tr1 s1)))
                else (Inl (Propagated e), invoked tr, s1))
      else (case last_exception of
              Some e \<Rightarrow> (Inl (Propagated e), tr, s)
            | None \<Rightarrow> (Inl RetryLogicError, tr, s)))"
  by pat_completeness auto
termination
  by (relation "measure (\<lambda>(config, func_name, func, retryable, on_retry, rnd, attempt,
        last_exception, tr, s). nat (max_attempts config) - attempt)") auto

definition retry_async ::
  "RetryConfig \<Rightarrow> string option \<Rightarrow> ('s \<Rightarrow> ('e + 'a) \<times> 's) \<Rightarrow> ('e \<Rightarrow> bool) \<Rightarrow>
   ('e \<Rightarrow> nat \<Rightarrow> 'e option) option \<Rightarrow> (nat \<Rightarrow> rat) \<Rightarrow> 's \<Rightarrow>
   ('e retry_error + 'a) \<times> 'e retry_trace \<times> 's" where
  "retry_async config func_name func retryable on_retry rnd s =
     retry_loop config func_name func retryable on_retry rnd 0 None
       \<lparr>invocations = 0, slept_ms = [], notified = []\<rparr> s"

declare retry_loop.simps [simp del]

text \<open>A callback that returns normally whenever it is called (or no callback at all).\<close>

definition never_raises :: "('e \<Rightarrow> nat \<Rightarrow> 'e option) option \<Rightarrow> bool" where
  "never_raises on_retry =
     (case on_retry of None \<Rightarrow> True | Some callback \<Rightarrow> (\<forall>e k. callback e k = None))"

text \<open>The state in which the operation is invoked for the \<open>(i + 1)\<close>-th time.\<close>

definition state_before :: "('s \<Rightarrow> ('e + 'a) \<times> 's) \<Rightarrow> 's \<Rightarrow> nat \<Rightarrow> 's" where
  "state_before func s i = ((\<lambda>t. snd (func t)) ^^ i) s"

text \<open>For concrete runs: the default policy, the same with 1026 attempts, an operation that counts
  its invocations and raises each time, a clause that retries every exception, and a
  random source that always yields one half.\<close>

definition policy_1026 :: RetryConfig where
  "policy_1026 = \<lparr>max_attempts = 1026, initial_delay_ms = 100, max_delay_ms = 10000,
                   exponential_base = 2, jitter = True\<rparr>"

definition default_policy :: RetryConfig where
  "default_policy = \<lparr>max_attempts = 3, initial_delay_ms = 100, max_delay_ms = 10000,
                      exponential_base = 2, jitter = True\<rparr>"

definition always_fails :: "nat \<Rightarrow> (nat + unit) \<times> nat" where
  "always_fails n = (Inl (Suc n), Suc n)"

definition every_exception :: "nat \<Rightarrow> bool" where
  "every_exception e = True"

definition one_half :: "nat \<Rightarrow> rat" where
  "one_half i = 1 / 2"

section \<open>Token-bucket rate limiter (src/core/retry.py)\<close>

record RateLimiter =
  tokens_per_second :: rat
  bucket_size :: int
  tokens :: rat
  last_update :: rat

text \<open>\<^verbatim>\<open>int(x)\<close> of a float truncates towards zero.\<close>

definition py_int :: "rat \<Rightarrow> int" where
  "py_int x = (if 0 \<le> x then \<lfloor>x\<rfloor> else \<lceil>x\<rceil>)"

text \<open>\<^verbatim>\<open>RateLimiter.__init__\<close>: \<^verbatim>\<open>bucket_size or int(tokens_per_second)\<close> falls back to the
  rate for \<^verbatim>\<open>None\<close> and also for 0; \<open>now\<close> is the clock reading.\<close>

definition new_RateLimiter :: "rat \<Rightarrow> int option \<Rightarrow> rat \<Rightarrow> RateLimiter" where
  "new_RateLimiter rate capacity now =
     (let b = (case capacity of
                 None \<Rightarrow> py_int rate
               | Some n \<Rightarrow> if n = 0 then py_int rate else n)
      in \<lparr>tokens_per_second = rate, bucket_size = b, tokens = of_int b, last_update = now\<rparr>)"

datatype acquire_error = ZeroDivisionError

text \<open>
  The loop of \<^verbatim>\<open>acquire\<close>, for one caller holding the lock.  \<open>now\<close> is the clock reading
  of the current iteration and \<open>i\<close> counts the suspensions so far.  The \<open>i\<close>-th call of
  \<^verbatim>\<open>asyncio.sleep(wait_time)\<close> returns \<open>max 0 wait_time + lateness i\<close> seconds later.
  Arithmetic is exact.  The loop may run forever: the function is partial, and its value
  is \<open>None\<close> where the loop does not end.
\<close>

partial_function (option) acquire_loop ::
  "(nat \<Rightarrow> rat) \<Rightarrow> int \<Rightarrow> nat \<Rightarrow> rat \<Rightarrow> RateLimiter \<Rightarrow>
   (acquire_error + RateLimiter \<times> rat \<times> nat) option" where
  "acquire_loop lateness n i now rl =
     (let elapsed = now - last_update rl;
          rl1 = rl\<lparr>tokens := min (of_int (bucket_size rl))
                                (tokens rl + elapsed * tokens_per_second rl),
                    last_update := now\<rparr>
      in if of_int n \<le> tokens rl1
         then Some (Inr (rl1\<lparr>tokens := tokens rl1 - of_int n\<rparr>, now, i))
         else if tokens_per_second rl1 = 0
         then Some (Inl ZeroDivisionError)
         else acquire_loop lateness n (Suc i)
                (now + max 0 ((of_int n - tokens rl1) / tokens_per_second rl1) + lateness i) rl1)"

definition acquire ::
  "(nat \<Rightarrow> rat) \<Rightarrow> int \<Rightarrow> rat \<Rightarrow> RateLimiter \<Rightarrow> (acquire_error + RateLimiter \<times> rat \<times> nat) option" where
  "acquire lateness n now rl = acquire_loop lateness n 0 now rl"

section \<open>Events (src/core/events.py)\<close>

datatype EventType =
    AUDIO_CAPTURE_START | AUDIO_CAPTURE_COMPLETE
  | STT_START | STT_COMPLETE | STT_ERROR
  | LLM_QUERY_START | LLM_TOKEN_RECEIVED | LLM_COMPLETE | LLM_ERROR
  | SENTENCE_READY
  | TTS_START | TTS_COMPLETE | TTS_ERROR
  | PIPELINE_START | PIPELINE_COMPLETE | PIPELINE_ERROR

fun event_value :: "EventType \<Rightarrow> string" where
  "event_value AUDIO_CAPTURE_START = ''audio_capture_start''"
| "event_value AUDIO_CAPTURE_COMPLETE = ''audio_capture_complete''"
| "event_value STT_START = ''stt_start''"
| "event_value STT_COMPLETE = ''stt_complete''"
| "event_value STT_ERROR = ''stt_error''"
| "event_value LLM_QUERY_START = ''llm_query_start''"
| "event_value LLM_TOKEN_RECEIVED = ''llm_token_received''"
| "event_value LLM_COMPLETE = ''llm_complete''"
| "event_value LLM_ERROR = ''llm_error''"
| "event_value SENTENCE_READY = ''sentence_ready''"
| "event_value TTS_START = ''tts_start''"
| "event_value TTS_COMPLETE = ''tts_complete''"
| "event_value TTS_ERROR = ''tts_error''"
| "event_value PIPELINE_START = ''pipeline_start''"
| "event_value PIPELINE_COMPLETE = ''pipeline_complete''"
| "event_value PIPELINE_ERROR = ''pipeline_error''"

definition all_event_types :: "EventType list" where
  "all_event_types =
     [AUDIO_CAPTURE_START, AUDIO_CAPTURE_COMPLETE, STT_START, STT_COMPLETE, STT_ERROR,
      LLM_QUERY_START, LLM_TOKEN_RECEIVED, LLM_COMPLETE, LLM_ERROR, SENTENCE_READY,
      TTS_START, TTS_COMPLETE, TTS_ERROR, PIPELINE_START, PIPELINE_COMPLETE, PIPELINE_ERROR]"

text \<open>
  \<^verbatim>\<open>emit\<close> takes a member of the enum or a plain string; \<^verbatim>\<open>EventType(s)\<close> looks the member
  up by value and raises \<^verbatim>\<open>ValueError\<close> when there is none.
\<close>

datatype event_arg = Member EventType | Str string

definition to_EventType :: "event_arg \<Rightarrow> EventType option" where
  "to_EventType arg =
     (case arg of
        Member t \<Rightarrow> Some t
      | Str s \<Rightarrow> find (\<lambda>t. event_value t = s) all_event_types)"

text \<open>Values of an event's data dictionary, which keeps the order of its keys.\<close>

datatype pyval = PStr string | PInt int | PBool bool

type_synonym payload = "(string \<times> pyval) list"

record PipelineEvent =
  timestamp :: rat
  event_type :: EventType
  event_data :: payload

text \<open>
  \<^verbatim>\<open>InMemoryEventObserver\<close>.  A callback is arbitrary code: called with the event it
  changes the world \<open>'w\<close> around the observer and returns, or raises an exception \<open>'x\<close>.
\<close>

record ('w, 'x) InMemoryEventObserver =
  events :: "PipelineEvent list"
  callbacks :: "(PipelineEvent \<Rightarrow> 'w \<Rightarrow> 'x option \<times> 'w) list"

definition on_event ::
  "(PipelineEvent \<Rightarrow> 'w \<Rightarrow> 'x option \<times> 'w) \<Rightarrow> ('w, 'x) InMemoryEventObserver \<Rightarrow>
   ('w, 'x) InMemoryEventObserver" where
  "on_event callback obs = obs\<lparr>callbacks := callbacks obs @ [callback]\<rparr>"

text \<open>The loop \<^verbatim>\<open>for callback in self._callbacks: callback(event)\<close>: an exception raised by a
  callback ends the loop.\<close>

fun notify ::
  "(PipelineEvent \<Rightarrow> 'w \<Rightarrow> 'x option \<times> 'w) list \<Rightarrow> PipelineEvent \<Rightarrow> 'w \<Rightarrow> 'x option \<times> 'w" where
  "notify [] event w = (None, w)"
| "notify (callback # rest) event w =
     (case callback event w of
        (Some e, w1) \<Rightarrow> (Some e, w1)
      | (None, w1) \<Rightarrow> notify rest event w1)"

datatype 'x emit_error = InvalidEventType string | CallbackRaised 'x

text \<open>\<^verbatim>\<open>emit\<close>; \<open>now\<close> is the value of \<^verbatim>\<open>time.time()\<close>, and \<^verbatim>\<open>data or {}\<close> turns \<^verbatim>\<open>None\<close> into
  the empty dictionary.\<close>

definition new_event :: "rat \<Rightarrow> EventType \<Rightarrow> payload option \<Rightarrow> PipelineEvent" where
  "new_event now t dat =
     \<lparr>timestamp = now, event_type = t, event_data = (case dat of None \<Rightarrow> [] | Some d \<Rightarrow> d)\<rparr>"

definition emit ::
  "rat \<Rightarrow> event_arg \<Rightarrow> payload option \<Rightarrow> ('w, 'x) InMemoryEventObserver \<Rightarrow> 'w \<Rightarrow>
   ('x emit_error + unit) \<times> ('w, 'x) InMemoryEventObserver \<times> 'w" where
  "emit now arg dat obs w =
     (case to_EventType arg of
        None \<Rightarrow> (Inl (InvalidEventType (case arg of Str s \<Rightarrow> s | Member t \<Rightarrow> event_value t)), obs, w)
      | Some t \<Rightarrow>
          (let event = new_event now t dat;
               obs1 = obs\<lparr>events := events obs @ [event]\<rparr>
           in case notify (callbacks obs1) event w of
                (Some e, w1) \<Rightarrow> (Inl (CallbackRaised e), obs1, w1)
              | (None, w1) \<Rightarrow> (Inr (), obs1, w1)))"

text \<open>A callback that returns normally whatever the event and the world.\<close>

definition returns_normally :: "(PipelineEvent \<Rightarrow> 'w \<Rightarrow> 'x option \<times> 'w) \<Rightarrow> bool" where
  "returns_normally callback = (\<forall>event w. fst (callback event w) = None)"

text \<open>The world after the callbacks of a list have all run, in order.\<close>

definition run_all ::
  "(PipelineEvent \<Rightarrow> 'w \<Rightarrow> 'x option \<times> 'w) list \<Rightarrow> PipelineEvent \<Rightarrow> 'w \<Rightarrow> 'w" where
  "run_all cbs event w = fold (\<lambda>callback v. snd (callback event v)) cbs w"

section \<open>Mock language model (src/llm/mock.py)\<close>

text \<open>\<^verbatim>\<open>str.split()\<close> without arguments: the maximal runs of non-whitespace characters.\<close>

fun split_words :: "string \<Rightarrow> string \<Rightarrow> string list" where
  "split_words word [] = (if word = [] then [] else [word])"
| "split_words word (c # cs) =
     (if isspace c
      then (if word = [] then split_words [] cs else word # split_words [] cs)
      else split_words (word @ [c]) cs)"

definition py_split :: "string \<Rightarrow> string list" where
  "py_split text = split_words [] text"

text \<open>\<^verbatim>\<open>MockLLM._tokenize\<close>: the words, with a token of one space before every word but the
  first.\<close>

fun tokenize_words :: "string list \<Rightarrow> string list" where
  "tokenize_words [] = []"
| "tokenize_words (word # rest) = '' '' # word # tokenize_words rest"

definition tokenize :: "string \<Rightarrow> string list" where
  "tokenize text = (case py_split text of [] \<Rightarrow> [] | word # rest \<Rightarrow> word # tokenize_words rest)"

section \<open>The pipeline (src/core/pipeline.py)\<close>

text \<open>
  An exception is its type name and its message, which is what the error event records;
  \<open>Exn\<close> is an exception of a class below \<^verbatim>\<open>Exception\<close>, \<open>BaseExn\<close> one of a class
  outside it, such as \<^verbatim>\<open>asyncio.CancelledError\<close> or \<^verbatim>\<open>KeyboardInterrupt\<close>.
  The providers are parameters: \<open>stt\<close> returns the transcript or raises; \<open>llm\<close> yields the
  tokens of its stream and the exception that ends the stream, if any; \<open>tts\<close> tells for a
  sentence whether speaking it raises.  The chunker is one of the two classes, with its
  minimum sentence length, and reports to the pipeline's observer.  The observer is an
  \<^verbatim>\<open>InMemoryEventObserver\<close> without callbacks; \<open>clock k\<close> is the time at which the event
  number \<open>k\<close> of the log is recorded.
\<close>

datatype exn = Exn string string | BaseExn string string

fun exn_type :: "exn \<Rightarrow> string" where
  "exn_type (Exn t msg) = t"
| "exn_type (BaseExn t msg) = t"

fun exn_message :: "exn \<Rightarrow> string" where
  "exn_message (Exn t msg) = msg"
| "exn_message (BaseExn t msg) = msg"

fun is_Exception :: "exn \<Rightarrow> bool" where
  "is_Exception (Exn t msg) = True"
| "is_Exception (BaseExn t msg) = False"

datatype chunker = SentenceChunker int | SentenceChunkerFixed int

fun chunker_tokens :: "chunker \<Rightarrow> string list \<Rightarrow> string list \<times> string" where
  "chunker_tokens (SentenceChunker msl) token_stream = chunk_tokens msl [] token_stream"
| "chunker_tokens (SentenceChunkerFixed msl) token_stream = chunk_tokens_fixed msl [] token_stream"

definition record_event ::
  "(nat \<Rightarrow> rat) \<Rightarrow> EventType \<Rightarrow> payload \<Rightarrow> PipelineEvent list \<Rightarrow> PipelineEvent list" where
  "record_event clock t dat evs = evs @ [new_event (clock (length evs)) t (Some dat)]"

text \<open>The \<^verbatim>\<open>SENTENCE_READY\<close> event of the chunker, with the preview \<^verbatim>\<open>sentence[:100]\<close>.\<close>

definition sentence_ready ::
  "(nat \<Rightarrow> rat) \<Rightarrow> bool \<Rightarrow> string \<Rightarrow> PipelineEvent list \<Rightarrow> PipelineEvent list" where
  "sentence_ready clock final sentence evs =
     record_event clock SENTENCE_READY
       ([(''sentence'', PStr (take 100 sentence)), (''length'', PInt (int (length sentence)))]
        @ (if final then [(''final'', PBool True)] else []))
       evs"

text \<open>\<^verbatim>\<open>asyncio.gather\<close> over the speaking tasks raises when a task raises; of several failing
  tasks the model reports the first in dispatch order.\<close>

fun gather :: "(string \<Rightarrow> exn option) \<Rightarrow> string list \<Rightarrow> exn option" where
  "gather tts [] = None"
| "gather tts (sentence # rest) =
     (case tts sentence of Some e \<Rightarrow> Some e | None \<Rightarrow> gather tts rest)"

text \<open>
  \<^verbatim>\<open>_process_text_query\<close>: the result is the exception raised, if any, the sentences for
  which a speaking task was created, in order of creation, and the log.  When the token
  stream raises, the sentences yielded so far have been dispatched, and the final flush of
  the chunker does not happen.
\<close>

definition process_text_query ::
  "(string \<Rightarrow> string list \<times> exn option) \<Rightarrow> chunker \<Rightarrow> (string \<Rightarrow> exn option) \<Rightarrow> (nat \<Rightarrow> rat) \<Rightarrow>
   string \<Rightarrow> PipelineEvent list \<Rightarrow> exn option \<times> string list \<times> PipelineEvent list" where
  "process_text_query llm chunker tts clock text evs =
     (case llm text of
        (token_stream, failure) \<Rightarrow>
          (case chunker_tokens chunker token_stream of
             (sentences, buffer) \<Rightarrow>
               (let evs1 = fold (sentence_ready clock False) sentences evs
                in case failure of
                     Some e \<Rightarrow> (Some e, sentences, evs1)
                   | None \<Rightarrow>
                       (let last_one = final_sentence buffer;
                            evs2 = fold (sentence_ready clock True) last_one evs1;
                            tts_tasks = sentences @ last_one
                        in (gather tts tts_tasks, tts_tasks, evs2)))))"

definition error_event :: "(nat \<Rightarrow> rat) \<Rightarrow> exn \<Rightarrow> PipelineEvent list \<Rightarrow> PipelineEvent list" where
  "error_event clock e evs =
     record_event clock PIPELINE_ERROR
       [(''error'', PStr (exn_message e)), (''error_type'', PStr (exn_type e))] evs"

text \<open>The handler \<^verbatim>\<open>except Exception as e\<close> of both entry points: an exception below
  \<^verbatim>\<open>Exception\<close> is recorded in an error event before it is raised again; any other
  exception passes the handler and leaves no event.\<close>

definition handle_exception :: "(nat \<Rightarrow> rat) \<Rightarrow> exn \<Rightarrow> PipelineEvent list \<Rightarrow> PipelineEvent list" where
  "handle_exception clock e evs = (if is_Exception e then error_event clock e evs else evs)"

definition process_text ::
  "(string \<Rightarrow> string list \<times> exn option) \<Rightarrow> chunker \<Rightarrow> (string \<Rightarrow> exn option) \<Rightarrow> (nat \<Rightarrow> rat) \<Rightarrow>
   string \<Rightarrow> PipelineEvent list \<Rightarrow> (exn + unit) \<times> string list \<times> PipelineEvent list" where
  "process_text llm chunker tts clock text evs =
     (let evs0 = record_event clock PIPELINE_START [(''text'', PStr (take 100 text))] evs
      in case process_text_query llm chunker tts clock text evs0 of
           (None, spoken, evs1) \<Rightarrow>
             (Inr (), spoken,
              record_event clock PIPELINE_COMPLETE [(''text'', PStr (take 100 text))] evs1)
         | (Some e, spoken, evs1) \<Rightarrow> (Inl e, spoken, handle_exception clock e evs1))"




text \<open>Providers for concrete runs: a mock model that streams a fixed response as
  \<^verbatim>\<open>MockLLM\<close> does, a speech-to-text stub with a fixed transcript, one that times out and
  one that is cancelled, a speaker that never fails, and a clock that counts the events.\<close>

definition MockLLM :: "string \<Rightarrow> string \<Rightarrow> string list \<times> exn option" where
  "MockLLM response text = (tokenize response, None)"




definition MockTTS :: "string \<Rightarrow> exn option" where
  "MockTTS text = None"

definition event_clock :: "nat \<Rightarrow> rat" where
  "event_clock k = of_nat k"

text \<open>A stream of the API client that answers with one chunk and ends normally.\<close>

definition one_chunk_stream :: "message list \<Rightarrow> string list \<times> unit option" where
  "one_chunk_stream messages = ([''ok''], None)"

text \<open>Two listeners for concrete runs, over a world that lists the listeners called:
  one records its number and returns, the other records its number and raises.\<close>

definition recording_listener :: "nat \<Rightarrow> PipelineEvent \<Rightarrow> nat list \<Rightarrow> string option \<times> nat list" where
  "recording_listener i event w = (None, w @ [i])"

definition failing_listener :: "nat \<Rightarrow> PipelineEvent \<Rightarrow> nat list \<Rightarrow> string option \<times> nat list" where
  "failing_listener i event w = (Some ''listener failed'', w @ [i])"

section \<open>Verified properties\<close>

subsection \<open>Audio validation\<close>

lemma validate_error_cases:
  "validate_audio_for_whisper a = Inl e \<Longrightarrow>
     (\<exists>d m. e = AudioTooShortError d m) \<or> (\<exists>s m. e = AudioTooLongError s m)
     \<or> (\<exists>msg. e = AudioFormatError msg)"
  by (auto simp: validate_audio_for_whisper_def Let_def split: option.splits if_splits)

lemma reraise_validate:
  "validate_audio_for_whisper a = Inl e \<Longrightarrow> reraise e = e"
  by (drule validate_error_cases) auto

text \<open>
  Claim C6.  A buffer whose duration is 50 ms is rejected with the too-short error carrying
  50 and 100.  A buffer of 26 MB whose duration is at or above the minimum is rejected with
  the too-large error carrying 26 and 25.  An input already in the target format is
  validated as it is, and what validation raises leaves \<^verbatim>\<open>normalize_for_whisper\<close>
  unchanged; any other input is validated after it has been converted, again with the
  validation error passed on unchanged.
\<close>

theorem validation_errors:
  "(duration_ms a = Some 50 \<longrightarrow>
      validate_audio_for_whisper a = Inl (AudioTooShortError 50 100))
 \<and> (size_bytes a = 26 * 1024 * 1024 \<and> (\<exists>d. duration_ms a = Some d \<and> WHISPER_MIN_DURATION_MS \<le> d) \<longrightarrow>
      validate_audio_for_whisper a = Inl (AudioTooLongError 26 25))
 \<and> (sample_rate a = WHISPER_SAMPLE_RATE \<and> channels a = WHISPER_CHANNELS \<and> format a = WAV \<longrightarrow>
      normalize_for_whisper to_samples samples_to_wav a bits =
        (case validate_audio_for_whisper a of Inl e \<Rightarrow> Inl e | Inr u \<Rightarrow> Inr a))
 \<and> (\<not> (sample_rate a = WHISPER_SAMPLE_RATE \<and> channels a = WHISPER_CHANNELS \<and> format a = WAV)
      \<and> to_samples a bits = Inr samples
      \<and> new_AudioData (samples_to_wav samples WHISPER_SAMPLE_RATE) WHISPER_SAMPLE_RATE WAV
           WHISPER_CHANNELS
           (Some ((rat_of_nat (length samples) / rat_of_int WHISPER_SAMPLE_RATE) * 1000))
          = Inr normalized \<longrightarrow>
      normalize_for_whisper to_samples samples_to_wav a bits =
        (case validate_audio_for_whisper normalized of Inl e \<Rightarrow> Inl e | Inr u \<Rightarrow> Inr normalized))"
proof (intro conjI impI)
  assume "duration_ms a = Some 50"
  then show "validate_audio_for_whisper a = Inl (AudioTooShortError 50 100)"
    by (simp add: validate_audio_for_whisper_def duration_too_short_def
        WHISPER_MIN_DURATION_MS_def)
next
  assume "size_bytes a = 26 * 1024 * 1024 \<and>
    (\<exists>d. duration_ms a = Some d \<and> WHISPER_MIN_DURATION_MS \<le> d)"
  then show "validate_audio_for_whisper a = Inl (AudioTooLongError 26 25)"
    by (auto simp: validate_audio_for_whisper_def duration_too_short_def
        WHISPER_MIN_DURATION_MS_def WHISPER_MAX_FILE_SIZE_MB_def Let_def)
next
  assume "sample_rate a = WHISPER_SAMPLE_RATE \<and> channels a = WHISPER_CHANNELS \<and> format a = WAV"
  then show "normalize_for_whisper to_samples samples_to_wav a bits =
        (case validate_audio_for_whisper a of Inl e \<Rightarrow> Inl e | Inr u \<Rightarrow> Inr a)"
    by (simp add: normalize_for_whisper_def reraise_validate split: sum.splits)
next
  assume "\<not> (sample_rate a = WHISPER_SAMPLE_RATE \<and> channels a = WHISPER_CHANNELS \<and> format a = WAV)
      \<and> to_samples a bits = Inr samples
      \<and> new_AudioData (samples_to_wav samples WHISPER_SAMPLE_RATE) WHISPER_SAMPLE_RATE WAV
           WHISPER_CHANNELS
           (Some ((rat_of_nat (length samples) / rat_of_int WHISPER_SAMPLE_RATE) * 1000))
          = Inr normalized"
  then show "normalize_for_whisper to_samples samples_to_wav a bits =
        (case validate_audio_for_whisper normalized of Inl e \<Rightarrow> Inl e | Inr u \<Rightarrow> Inr normalized)"
    by (auto simp: normalize_for_whisper_def Let_def reraise_validate split: sum.splits)
qed

theorem validation_errors_witness:
  "validate_audio_for_whisper
     \<lparr>data = [0, 0], sample_rate = 16000, format = WAV, channels = 1, duration_ms = Some 50\<rparr>
     = Inl (AudioTooShortError 50 100)
 \<and> validate_audio_for_whisper
     \<lparr>data = replicate (26 * 1024 * 1024) 0, sample_rate = 16000, format = WAV, channels = 1,
      duration_ms = Some 10000\<rparr>
     = Inl (AudioTooLongError 26 25)
 \<and> normalize_for_whisper (\<lambda>a b. Inr [(), ()]) (\<lambda>s r. [0])
     \<lparr>data = [0, 0], sample_rate = 16000, format = WAV, channels = 1, duration_ms = Some 50\<rparr> 16
     = Inl (AudioTooShortError 50 100)
 \<and> normalize_for_whisper (\<lambda>a b. Inr [(), ()]) (\<lambda>s r. [0])
     \<lparr>data = [0, 0], sample_rate = 48000, format = WAV, channels = 2, duration_ms = None\<rparr> 16
     = Inl (AudioTooShortError (1 / 8) 100)"
  using
    validation_errors [of
      "\<lparr>data = [0, 0], sample_rate = 16000, format = WAV, channels = 1, duration_ms = Some 50\<rparr>"
      "\<lambda>a b. Inr [(), ()]" "\<lambda>s r. [0]" 16 "[(), ()]"
      "\<lparr>data = [0], sample_rate = 16000, format = WAV, channels = 1, duration_ms = Some (1 / 8)\<rparr>"]
    validation_errors [of
      "\<lparr>data = replicate (26 * 1024 * 1024) 0, sample_rate = 16000, format = WAV, channels = 1,
        duration_ms = Some 10000\<rparr>"
      "\<lambda>a b. Inr [(), ()]" "\<lambda>s r. [0]" 16 "[(), ()]"
      "\<lparr>data = [0], sample_rate = 16000, format = WAV, channels = 1, duration_ms = Some (1 / 8)\<rparr>"]
    validation_errors [of
      "\<lparr>data = [0, 0], sample_rate = 48000, format = WAV, channels = 2, duration_ms = None\<rparr>"
      "\<lambda>a b. Inr [(), ()]" "\<lambda>s r. [0]" 16 "[(), ()]"
      "\<lparr>data = [0], sample_rate = 16000, format = WAV, channels = 1, duration_ms = Some (1 / 8)\<rparr>"]
  by (simp add: size_bytes_def WHISPER_MIN_DURATION_MS_def WHISPER_SAMPLE_RATE_def
      WHISPER_CHANNELS_def new_AudioData_def validate_audio_for_whisper_def
      duration_too_short_def)

text \<open>
  Claim C10.  When \<^verbatim>\<open>duration_ms\<close> is \<^verbatim>\<open>None\<close> or 0 the duration check is skipped: validation
  never raises the too-short error, and it succeeds whenever the size is within the limit
  and the format is one of WAV, FLAC and MP3.
\<close>

theorem unknown_duration_skips_too_short:
  assumes "duration_ms a = None \<or> duration_ms a = Some 0"
  shows "(\<forall>d m. validate_audio_for_whisper a \<noteq> Inl (AudioTooShortError d m))
       \<and> (rat_of_nat (size_bytes a) / (1024 * 1024) \<le> WHISPER_MAX_FILE_SIZE_MB
            \<and> format a \<in> {WAV, FLAC, MP3} \<longrightarrow> validate_audio_for_whisper a = Inr ())"
  using assms
  by (auto simp: validate_audio_for_whisper_def duration_too_short_def Let_def
      split: if_splits)

theorem unknown_duration_skips_too_short_witness:
  "duration_ms
     \<lparr>data = [0, 0], sample_rate = 16000, format = WAV, channels = 1, duration_ms = Some 0\<rparr>
     = Some 0
 \<and> validate_audio_for_whisper
     \<lparr>data = [0, 0], sample_rate = 16000, format = WAV, channels = 1, duration_ms = Some 0\<rparr>
     = Inr ()
 \<and> validate_audio_for_whisper
     \<lparr>data = [0, 0], sample_rate = 16000, format = FLAC, channels = 1, duration_ms = None\<rparr>
     = Inr ()"
  using
    unknown_duration_skips_too_short [of
      "\<lparr>data = [0, 0], sample_rate = 16000, format = WAV, channels = 1, duration_ms = Some 0\<rparr>"]
    unknown_duration_skips_too_short [of
      "\<lparr>data = [0, 0], sample_rate = 16000, format = FLAC, channels = 1, duration_ms = None\<rparr>"]
  by (simp add: size_bytes_def WHISPER_MAX_FILE_SIZE_MB_def)

subsection \<open>Conversation history\<close>

lemma append_user_bounded: "length (append_user t h) \<le> MAX_HISTORY_TURNS"
  by (auto simp: append_user_def last_turns_def Let_def)

lemma query_stream_completed_length:
  "stream (append_user t h) = (chunks, None) \<Longrightarrow>
   length (snd (snd (query_stream stream t h))) = length (append_user t h) + 1"
  by (simp add: query_stream_def Let_def)

text \<open>
  Claim C8 (evaluation at the failing input).  With 50 entries in the history, a query whose
  stream ends normally leaves 51 entries: the user message is appended and the history
  trimmed back to 50, then the assistant's response is appended and no trim follows.
\<close>

theorem history_holds_51_after_completed_query:
  "length (snd (snd (query_stream one_chunk_stream ''hi''
     (replicate 50 \<lparr>role = ''user'', content = ''x''\<rparr>)))) = 51"
  by (simp add: query_stream_def append_user_def last_turns_def MAX_HISTORY_TURNS_def Let_def
      one_chunk_stream_def)

subsection \<open>Retry\<close>

lemma state_before_Suc: "state_before func s (Suc i) = state_before func (snd (func s)) i"
  by (simp add: state_before_def funpow_Suc_right del: funpow.simps)

lemma state_before_0: "state_before func s 0 = s"
  by (simp add: state_before_def)

lemma before_retry_quiet:
  assumes "never_raises on_retry"
  shows "\<exists>tr1. before_retry (Some name) on_retry e attempt d tr = Inr tr1
           \<and> invocations tr1 = invocations tr"
  using assms by (auto simp: before_retry_def never_raises_def split: option.splits)

lemma retry_step:
  assumes "never_raises on_retry" and "func_name = Some name"
    and "int attempt < max_attempts config - 1"
    and "func s = (Inl e, s1)" and "retryable e"
    and "get_delay_ms config attempt (rnd attempt) = Some d"
  shows "\<exists>tr1. retry_loop config func_name func retryable on_retry rnd attempt le tr s
             = retry_loop config func_name func retryable on_retry rnd (Suc attempt) (Some e) tr1 s1
           \<and> invocations tr1 = invocations tr + 1"
proof -
  obtain tr1 where tr1: "before_retry (Some name) on_retry e attempt d (invoked tr) = Inr tr1"
    "invocations tr1 = invocations (invoked tr)"
    using before_retry_quiet [OF assms(1)] by blast
  have "retry_loop config func_name func retryable on_retry rnd attempt le tr s
        = retry_loop config func_name func retryable on_retry rnd (Suc attempt) (Some e) tr1 s1"
    using assms tr1 by (subst retry_loop.simps) simp
  moreover have "invocations tr1 = invocations tr + 1" using tr1 by (simp add: invoked_def)
  ultimately show ?thesis by blast
qed

lemma retry_loop_fail:
  assumes "never_raises on_retry" and "func_name = Some name"
  shows "d = nat (max_attempts config) - attempt \<Longrightarrow> 0 < d \<Longrightarrow>
    \<forall>i < d. \<exists>e. fst (func (state_before func s i)) = Inl e \<and> retryable e \<Longrightarrow>
    \<forall>j. attempt \<le> j \<and> Suc j < nat (max_attempts config) \<longrightarrow> get_delay_ms config j (rnd j) \<noteq> None \<Longrightarrow>
    \<exists>e. fst (func (state_before func s (d - 1))) = Inl e
       \<and> fst (retry_loop config func_name func retryable on_retry rnd attempt le tr s)
           = Inl (Propagated e)
       \<and> invocations (fst (snd (retry_loop config func_name func retryable on_retry rnd attempt le tr s)))
           = invocations tr + d"
proof (induction d arbitrary: attempt le tr s)
  case 0
  then show ?case by simp
next
  case (Suc d)
  from Suc.prems(3) obtain e where e: "fst (func s) = Inl e" "retryable e"
    by (auto simp: state_before_0 dest: spec[where x=0])
  obtain s1 where s1: "func s = (Inl e, s1)" using e by (cases "func s") auto
  have lt: "int attempt < max_attempts config" using Suc.prems(1) by linarith
  show ?case
  proof (cases "d = 0")
    case True
    then have last: "int attempt = max_attempts config - 1" using Suc.prems(1) by linarith
    show ?thesis using True e s1 lt last assms(2)
      by (subst (1 2) retry_loop.simps) (simp add: state_before_0 invoked_def)
  next
    case False
    then have nl: "int attempt < max_attempts config - 1" using Suc.prems(1) by linarith
    have d: "d = nat (max_attempts config) - Suc attempt" using Suc.prems(1) by linarith
    have all: "\<forall>i<d. \<exists>e. fst (func (state_before func s1 i)) = Inl e \<and> retryable e"
      using Suc.prems(3) s1 by (auto simp: state_before_Suc dest: spec[where x="Suc _"])
    have "Suc attempt < nat (max_attempts config)" using nl by linarith
    then obtain dl where dl: "get_delay_ms config attempt (rnd attempt) = Some dl"
      using Suc.prems(4) by (cases "get_delay_ms config attempt (rnd attempt)") auto
    have later: "\<forall>j. Suc attempt \<le> j \<and> Suc j < nat (max_attempts config)
        \<longrightarrow> get_delay_ms config j (rnd j) \<noteq> None"
      using Suc.prems(4) by auto
    obtain tr1 where step: "retry_loop config func_name func retryable on_retry rnd attempt le tr s
        = retry_loop config func_name func retryable on_retry rnd (Suc attempt) (Some e) tr1 s1"
      and inv: "invocations tr1 = invocations tr + 1"
      using retry_step [where on_retry = on_retry and func_name = func_name and name = name
        and attempt = attempt and config = config and func = func and s = s and e = e
        and ?s1.0 = s1 and retryable = retryable and rnd = rnd and d = dl and le = le and tr = tr]
      assms nl s1 e(2) dl by blast
    from Suc.IH [OF d _ all later, of "Some e" tr1] False
    obtain e' where "fst (func (state_before func s1 (d - 1))) = Inl e'"
       "fst (retry_loop config func_name func retryable on_retry rnd (Suc attempt) (Some e) tr1 s1)
          = Inl (Propagated e')"
       "invocations (fst (snd (retry_loop config func_name func retryable on_retry rnd (Suc attempt)
          (Some e) tr1 s1))) = invocations tr1 + d" by auto
    then show ?thesis using step inv False s1
      by (cases d) (auto simp: state_before_Suc)
  qed
qed

lemma retry_loop_success:
  assumes "never_raises on_retry" and "func_name = Some name"
  shows "attempt + k < nat (max_attempts config) \<Longrightarrow>
    \<forall>i < k. \<exists>e. fst (func (state_before func s i)) = Inl e \<and> retryable e \<Longrightarrow>
    \<forall>j. attempt \<le> j \<and> j < attempt + k \<longrightarrow> get_delay_ms config j (rnd j) \<noteq> None \<Longrightarrow>
    fst (func (state_before func s k)) = Inr v \<Longrightarrow>
    fst (retry_loop config func_name func retryable on_retry rnd attempt le tr s) = Inr v
       \<and> invocations (fst (snd (retry_loop config func_name func retryable on_retry rnd attempt le tr s)))
           = invocations tr + k + 1"
proof (induction k arbitrary: attempt le tr s)
  case 0
  then obtain s1 where "func s = (Inr v, s1)" by (cases "func s") (auto simp: state_before_0)
  moreover have "int attempt < max_attempts config" using 0 by linarith
  ultimately show ?case
    by (subst (1 2) retry_loop.simps) (simp add: invoked_def)
next
  case (Suc k)
  from Suc.prems(2) obtain e where e: "fst (func s) = Inl e" "retryable e"
    by (auto simp: state_before_0 dest: spec[where x=0])
  obtain s1 where s1: "func s = (Inl e, s1)" using e by (cases "func s") auto
  have nl: "int attempt < max_attempts config - 1" using Suc.prems(1) by linarith
  have all: "\<forall>i<k. \<exists>e. fst (func (state_before func s1 i)) = Inl e \<and> retryable e"
    using Suc.prems(2) s1 by (auto simp: state_before_Suc dest: spec[where x="Suc _"])
  have v: "fst (func (state_before func s1 k)) = Inr v"
    using Suc.prems(4) s1 by (simp add: state_before_Suc)
  obtain dl where dl: "get_delay_ms config attempt (rnd attempt) = Some dl"
    using Suc.prems(3) by (cases "get_delay_ms config attempt (rnd attempt)") auto
  have later: "\<forall>j. Suc attempt \<le> j \<and> j < Suc attempt + k \<longrightarrow> get_delay_ms config j (rnd j) \<noteq> None"
    using Suc.prems(3) by auto
  obtain tr1 where step: "retry_loop config func_name func retryable on_retry rnd attempt le tr s
        = retry_loop config func_name func retryable on_retry rnd (Suc attempt) (Some e) tr1 s1"
      and inv: "invocations tr1 = invocations tr + 1"
    using retry_step [where on_retry = on_retry and func_name = func_name and name = name
        and attempt = attempt and config = config and func = func and s = s and e = e
        and ?s1.0 = s1 and retryable = retryable and rnd = rnd and d = dl and le = le and tr = tr]
      assms nl s1 e(2) dl by blast
  have "Suc attempt + k < nat (max_attempts config)" using Suc.prems(1) by simp
  from Suc.IH [OF this all later v, of "Some e" tr1] show ?case using step inv by simp
qed

lemma retry_loop_overflow:
  assumes "never_raises on_retry" and "func_name = Some name"
  shows "Suc (attempt + k) < nat (max_attempts config) \<Longrightarrow>
    \<forall>i \<le> k. \<exists>e. fst (func (state_before func s i)) = Inl e \<and> retryable e \<Longrightarrow>
    \<forall>j. attempt \<le> j \<and> j < attempt + k \<longrightarrow> get_delay_ms config j (rnd j) \<noteq> None \<Longrightarrow>
    get_delay_ms config (attempt + k) (rnd (attempt + k)) = None \<Longrightarrow>
    fst (retry_loop config func_name func retryable on_retry rnd attempt le tr s) = Inl OverflowError
       \<and> invocations (fst (snd (retry_loop config func_name func retryable on_retry rnd attempt le tr s)))
           = invocations tr + k + 1"
proof (induction k arbitrary: attempt le tr s)
  case 0
  from 0(2) obtain e where e: "fst (func s) = Inl e" "retryable e"
    by (auto simp: state_before_0)
  obtain s1 where s1: "func s = (Inl e, s1)" using e by (cases "func s") auto
  have "int attempt < max_attempts config" "int attempt \<noteq> max_attempts config - 1"
    using 0(1) by linarith+
  then show ?case using s1 e 0(4)
    by (subst (1 2) retry_loop.simps) (simp add: invoked_def)
next
  case (Suc k)
  from Suc.prems(2) obtain e where e: "fst (func s) = Inl e" "retryable e"
    by (auto simp: state_before_0 dest: spec[where x=0])
  obtain s1 where s1: "func s = (Inl e, s1)" using e by (cases "func s") auto
  have nl: "int attempt < max_attempts config - 1" using Suc.prems(1) by linarith
  have all: "\<forall>i\<le>k. \<exists>e. fst (func (state_before func s1 i)) = Inl e \<and> retryable e"
    using Suc.prems(2) s1 by (auto simp: state_before_Suc dest: spec[where x="Suc _"])
  obtain dl where dl: "get_delay_ms config attempt (rnd attempt) = Some dl"
    using Suc.prems(3) by (cases "get_delay_ms config attempt (rnd attempt)") auto
  have later: "\<forall>j. Suc attempt \<le> j \<and> j < Suc attempt + k \<longrightarrow> get_delay_ms config j (rnd j) \<noteq> None"
    using Suc.prems(3) by auto
  have ov: "get_delay_ms config (Suc attempt + k) (rnd (Suc attempt + k)) = None"
    using Suc.prems(4) by simp
  obtain tr1 where step: "retry_loop config func_name func retryable on_retry rnd attempt le tr s
        = retry_loop config func_name func retryable on_retry rnd (Suc attempt) (Some e) tr1 s1"
      and inv: "invocations tr1 = invocations tr + 1"
    using retry_step [where on_retry = on_retry and func_name = func_name and name = name
        and attempt = attempt and config = config and func = func and s = s and e = e
        and ?s1.0 = s1 and retryable = retryable and rnd = rnd and d = dl and le = le and tr = tr]
      assms nl s1 e(2) dl by blast
  have "Suc (Suc attempt + k) < nat (max_attempts config)" using Suc.prems(1) by simp
  from Suc.IH [OF this all later ov, of "Some e" tr1] show ?case using step inv by simp
qed

lemma float_max_bounds: "(2::rat) ^ 1023 \<le> FLOAT_MAX" "FLOAT_MAX < (2::rat) ^ 1024"
  by (simp_all add: FLOAT_MAX_def)

lemma float_pow_2: "float_pow 2 j = None \<longleftrightarrow> 1024 \<le> j"
proof
  assume "float_pow 2 j = None"
  then have a: "FLOAT_MAX < (2::rat) ^ j" by (simp add: float_pow_def split: if_splits)
  show "1024 \<le> j"
  proof (rule ccontr)
    assume "\<not> 1024 \<le> j"
    then have "j \<le> 1023" by simp
    then have "(2::rat) ^ j \<le> 2 ^ 1023" by (intro power_increasing) simp_all
    with a float_max_bounds(1) show False by linarith
  qed
next
  assume "1024 \<le> j"
  then have "(2::rat) ^ 1024 \<le> 2 ^ j" by (intro power_increasing) simp_all
  with float_max_bounds(2) have "FLOAT_MAX < \<bar>(2::rat) ^ j\<bar>" by simp
  then show "float_pow 2 j = None" by (simp add: float_pow_def)
qed

lemma delay_1026: "get_delay_ms policy_1026 j r = None \<longleftrightarrow> 1024 \<le> j"
  using float_pow_2 [of j]
  by (auto simp: get_delay_ms_def policy_1026_def Let_def split: option.splits)

lemma always_fails_state: "state_before always_fails 0 i = i"
  by (induction i) (simp_all add: state_before_def always_fails_def)

text \<open>
  As long as the operation has a name, the callback returns normally and the powers of
  the base stay within the floats, \<^verbatim>\<open>retry_async\<close> behaves as documented: an operation
  that raises a retryable exception at each of \<open>max_attempts\<close> invocations is invoked
  exactly that often and its last exception is raised as it is, and a value returned by
  the \<open>(k + 1)\<close>-th invocation is returned after exactly \<open>k + 1\<close> invocations.
\<close>

lemma retry_exhaustion_and_success:
  assumes "never_raises on_retry" and "func_name = Some name"
    and "\<forall>j. Suc j < nat (max_attempts config) \<longrightarrow> get_delay_ms config j (rnd j) \<noteq> None"
  shows "(1 \<le> max_attempts config
          \<and> (\<forall>i < nat (max_attempts config).
                \<exists>e. fst (func (state_before func s i)) = Inl e \<and> retryable e)
        \<longrightarrow> (\<exists>e. fst (func (state_before func s (nat (max_attempts config) - 1))) = Inl e
               \<and> fst (retry_async config func_name func retryable on_retry rnd s)
                   = Inl (Propagated e))
            \<and> invocations (fst (snd (retry_async config func_name func retryable on_retry rnd s)))
                = nat (max_attempts config))
       \<and> (k < nat (max_attempts config)
          \<and> (\<forall>i < k. \<exists>e. fst (func (state_before func s i)) = Inl e \<and> retryable e)
          \<and> fst (func (state_before func s k)) = Inr v
        \<longrightarrow> fst (retry_async config func_name func retryable on_retry rnd s) = Inr v
            \<and> invocations (fst (snd (retry_async config func_name func retryable on_retry rnd s)))
                = k + 1)"
proof (intro conjI impI)
  assume a: "1 \<le> max_attempts config
          \<and> (\<forall>i < nat (max_attempts config).
                \<exists>e. fst (func (state_before func s i)) = Inl e \<and> retryable e)"
  then have pos: "0 < nat (max_attempts config)" by simp
  from a have all: "\<forall>i < nat (max_attempts config).
     \<exists>e. fst (func (state_before func s i)) = Inl e \<and> retryable e" by simp
  have d: "nat (max_attempts config) = nat (max_attempts config) - 0" by simp
  have ok: "\<forall>j. 0 \<le> j \<and> Suc j < nat (max_attempts config) \<longrightarrow> get_delay_ms config j (rnd j) \<noteq> None"
    using assms(3) by simp
  from retry_loop_fail [where on_retry = on_retry and func_name = func_name and name = name
      and d = "nat (max_attempts config)" and config = config and attempt = 0 and func = func
      and s = s and retryable = retryable and rnd = rnd and le = None
      and tr = "\<lparr>invocations = 0, slept_ms = [], notified = []\<rparr>"] assms(1,2) d pos all ok
  show "\<exists>e. fst (func (state_before func s (nat (max_attempts config) - 1))) = Inl e
          \<and> fst (retry_async config func_name func retryable on_retry rnd s) = Inl (Propagated e)"
    and "invocations (fst (snd (retry_async config func_name func retryable on_retry rnd s)))
          = nat (max_attempts config)"
    by (auto simp: retry_async_def)
next
  assume b: "k < nat (max_attempts config)
          \<and> (\<forall>i < k. \<exists>e. fst (func (state_before func s i)) = Inl e \<and> retryable e)
          \<and> fst (func (state_before func s k)) = Inr v"
  then have k: "0 + k < nat (max_attempts config)"
    and all: "\<forall>i < k. \<exists>e. fst (func (state_before func s i)) = Inl e \<and> retryable e"
    and v: "fst (func (state_before func s k)) = Inr v" by simp_all
  have ok: "\<forall>j. 0 \<le> j \<and> j < 0 + k \<longrightarrow> get_delay_ms config j (rnd j) \<noteq> None"
    using assms(3) k by auto
  from retry_loop_success [where on_retry = on_retry and func_name = func_name and name = name
      and k = k and config = config and attempt = 0 and func = func and s = s and v = v
      and retryable = retryable and rnd = rnd and le = None
      and tr = "\<lparr>invocations = 0, slept_ms = [], notified = []\<rparr>"] assms(1,2) k all ok v
  show "fst (retry_async config func_name func retryable on_retry rnd s) = Inr v"
    and "invocations (fst (snd (retry_async config func_name func retryable on_retry rnd s))) = k + 1"
    by (auto simp: retry_async_def)
qed

text \<open>
  Claim C4 (evaluation at the failing inputs).  With the default policy and 1026 attempts,
  an operation that raises a retryable exception at every invocation is invoked 1025
  times, not 1026, and \<^verbatim>\<open>retry_async\<close> raises \<^verbatim>\<open>OverflowError\<close>, not the operation's
  exception: after the 1025th failure \<^verbatim>\<open>get_delay_ms\<close> computes \<open>2.0 ** 1024\<close>.  With the
  default policy of 3 attempts and an operation without \<^verbatim>\<open>__name__\<close>, the first failure
  ends the run with \<^verbatim>\<open>AttributeError\<close> after one invocation.
\<close>

theorem retry_handler_raises_its_own_errors:
  "fst (retry_async policy_1026 (Some ''always_fails'') always_fails every_exception None one_half 0)
     = Inl OverflowError
 \<and> invocations (fst (snd (retry_async policy_1026 (Some ''always_fails'') always_fails
       every_exception None one_half 0))) = 1025
 \<and> fst (retry_async default_policy None always_fails every_exception None one_half 0)
     = Inl AttributeError
 \<and> invocations (fst (snd (retry_async default_policy None always_fails every_exception None
       one_half 0))) = 1"
proof -
  have q: "never_raises (None :: (nat \<Rightarrow> nat \<Rightarrow> nat option) option)" by (simp add: never_raises_def)
  have m: "Suc (0 + 1024) < nat (max_attempts policy_1026)" by (simp add: policy_1026_def)
  have f: "\<forall>i \<le> 1024. \<exists>e. fst (always_fails (state_before always_fails 0 i)) = Inl e \<and> every_exception e"
    by (simp add: always_fails_state always_fails_def every_exception_def)
  have ok: "\<forall>j. 0 \<le> j \<and> j < 0 + 1024 \<longrightarrow> get_delay_ms policy_1026 j (one_half j) \<noteq> None"
    by (simp add: delay_1026)
  have ov: "get_delay_ms policy_1026 (0 + 1024) (one_half (0 + 1024)) = None"
    by (simp add: delay_1026)
  have a: "fst (retry_async policy_1026 (Some ''always_fails'') always_fails every_exception None one_half 0)
     = Inl OverflowError
    \<and> invocations (fst (snd (retry_async policy_1026 (Some ''always_fails'') always_fails
       every_exception None one_half 0))) = 1025"
    using retry_loop_overflow [where on_retry = None and func_name = "Some ''always_fails''"
        and name = "''always_fails''" and attempt = 0 and k = 1024 and config = policy_1026
        and func = always_fails and s = 0 and retryable = every_exception and rnd = one_half
        and le = None and tr = "\<lparr>invocations = 0, slept_ms = [], notified = []\<rparr>"]
      q m f ok ov
    by (simp add: retry_async_def)
  have d: "get_delay_ms default_policy 0 (one_half 0) = Some 100"
    by (simp add: get_delay_ms_def default_policy_def float_pow_def FLOAT_MAX_def one_half_def)
  have mx: "max_attempts default_policy = 3" by (simp add: default_policy_def)
  have b: "retry_async default_policy None always_fails every_exception None one_half 0
     = (Inl AttributeError, \<lparr>invocations = 1, slept_ms = [], notified = []\<rparr>, 1)"
    unfolding retry_async_def
    by (subst retry_loop.simps)
      (simp add: d mx always_fails_def every_exception_def before_retry_def invoked_def)
  show ?thesis using a b by simp
qed


subsection \<open>Rate limiter\<close>

lemma acquire_loop_returns_bound:
  assumes "acquire_loop lateness n i now rl = Some r"
  shows "(\<exists>x. r = Inr x \<and> n \<le> bucket_size rl) \<or> (r = Inl ZeroDivisionError \<and> tokens_per_second rl = 0)"
proof (rule acquire_loop.raw_induct [where P = "\<lambda>lateness n i now rl r.
    (\<exists>x. r = Inr x \<and> n \<le> bucket_size rl) \<or> (r = Inl ZeroDivisionError \<and> tokens_per_second rl = 0)",
    OF _ assms], goal_cases)
  case (1 acquire_loop lateness n i now rl r)
  show ?case
    using 1(2) by (auto simp: Let_def split: if_splits dest!: 1(1))
qed

lemma acquire_loop_enough:
  assumes pos: "0 < tokens_per_second rl" and late: "0 \<le> lateness i" and le: "n \<le> bucket_size rl"
  shows "\<exists>rl' t j. acquire_loop lateness n i now rl = Some (Inr (rl', t, j)) \<and> j \<le> Suc i"
proof -
  define t where "t = min (rat_of_int (bucket_size rl)) (tokens rl + (now - last_update rl) * tokens_per_second rl)"
  show ?thesis
  proof (cases "rat_of_int n \<le> t")
    case True
    then show ?thesis by (subst acquire_loop.simps) (auto simp: Let_def t_def)
  next
    case False
    define w where "w = (rat_of_int n - t) / tokens_per_second rl"
    define now1 where "now1 = now + max 0 w + lateness i"
    define rl1 where "rl1 = rl\<lparr>tokens := t, last_update := now\<rparr>"
    have lt: "t < rat_of_int n" using False by (simp only: not_le)
    have wpos: "0 < w" unfolding w_def using lt pos by (intro divide_pos_pos; linarith)
    have wt: "w * tokens_per_second rl = rat_of_int n - t" using pos by (simp add: w_def)
    have "w \<le> now1 - now" using wpos late by (simp add: now1_def)
    then have "w * tokens_per_second rl \<le> (now1 - now) * tokens_per_second rl"
      using pos by (intro mult_right_mono) auto
    with wt have "rat_of_int n \<le> t + (now1 - now) * tokens_per_second rl" by linarith
    moreover have "rat_of_int n \<le> rat_of_int (bucket_size rl)" using le by simp
    ultimately have ok: "rat_of_int n \<le> min (rat_of_int (bucket_size rl1))
        (tokens rl1 + (now1 - last_update rl1) * tokens_per_second rl1)"
      by (simp add: rl1_def)
    have step: "acquire_loop lateness n i now rl = acquire_loop lateness n (Suc i) now1 rl1"
      using False pos
      by (subst acquire_loop.simps) (auto simp: Let_def t_def w_def now1_def rl1_def)
    have "\<exists>rl' t. acquire_loop lateness n (Suc i) now1 rl1 = Some (Inr (rl', t, Suc i))"
      using ok by (subst acquire_loop.simps) (auto simp: Let_def)
    with step show ?thesis by auto
  qed
qed

lemma py_int_small: "0 < r \<Longrightarrow> r < 1 \<Longrightarrow> py_int r = 0"
  by (simp add: py_int_def floor_eq_iff)

text \<open>
  Claim C9.  For a limiter with a positive rate, and sleeps that never return early,
  \<^verbatim>\<open>acquire(n)\<close> returns exactly when \<open>n\<close> is at most \<open>bucket_size\<close>; for a larger \<open>n\<close>
  the loop never ends.  In particular a rate below 1 with the default bucket size gives
  capacity 0, and \<^verbatim>\<open>acquire(1)\<close> never returns.
\<close>

theorem acquire_returns_iff_within_capacity:
  assumes "0 < tokens_per_second rl" and "\<forall>i. 0 \<le> lateness i"
  shows "((\<exists>rl' t j. acquire lateness n now rl = Some (Inr (rl', t, j))) \<longleftrightarrow> n \<le> bucket_size rl)
       \<and> (bucket_size rl < n \<longrightarrow> acquire lateness n now rl = None)
       \<and> (tokens_per_second rl < 1 \<longrightarrow>
            bucket_size (new_RateLimiter (tokens_per_second rl) None t0) = 0
            \<and> acquire lateness 1 now (new_RateLimiter (tokens_per_second rl) None t0) = None)"
proof (intro conjI impI)
  show "(\<exists>rl' t j. acquire lateness n now rl = Some (Inr (rl', t, j))) \<longleftrightarrow> n \<le> bucket_size rl"
    using acquire_loop_enough[of rl lateness 0 n now] acquire_loop_returns_bound[of lateness n 0 now rl] assms
    by (auto simp: acquire_def)
next
  assume "bucket_size rl < n"
  then show "acquire lateness n now rl = None"
    using acquire_loop_returns_bound[of lateness n 0 now rl] assms(1)
    by (cases "acquire lateness n now rl") (auto simp: acquire_def)
next
  assume "tokens_per_second rl < 1"
  then show "bucket_size (new_RateLimiter (tokens_per_second rl) None t0) = 0"
    using assms(1) by (simp add: new_RateLimiter_def py_int_small)
next
  assume lt: "tokens_per_second rl < 1"
  let ?rl = "new_RateLimiter (tokens_per_second rl) None t0"
  have b: "bucket_size ?rl = 0" and r: "tokens_per_second ?rl = tokens_per_second rl"
    using assms(1) lt by (simp_all add: new_RateLimiter_def py_int_small Let_def)
  show "acquire lateness 1 now ?rl = None"
    using acquire_loop_returns_bound[of lateness 1 0 now ?rl] assms(1) b r
    by (cases "acquire lateness 1 now ?rl") (auto simp: acquire_def)
qed

theorem acquire_returns_iff_within_capacity_witness:
  "(\<exists>rl' t j. acquire (\<lambda>i. 0) 2 1 (new_RateLimiter 2 (Some 2) 0) = Some (Inr (rl', t, j)))
  \<and> acquire (\<lambda>i. 0) 3 1 (new_RateLimiter 2 (Some 2) 0) = None
  \<and> bucket_size (new_RateLimiter (1 / 2) None 0) = 0
  \<and> acquire (\<lambda>i. 0) 1 1 (new_RateLimiter (1 / 2) None 0) = None"
  using acquire_returns_iff_within_capacity [of "new_RateLimiter 2 (Some 2) 0" "\<lambda>i. 0" 2 1 0] acquire_returns_iff_within_capacity [of "new_RateLimiter 2 (Some 2) 0" "\<lambda>i. 0" 3 1 0]
   acquire_returns_iff_within_capacity [of "new_RateLimiter (1/2) None 0" "\<lambda>i. 0" 1 1 0]
  by (simp add: new_RateLimiter_def py_int_small Let_def)

subsection \<open>Event observer\<close>

lemma notify_all_normal:
  "list_all returns_normally cbs \<Longrightarrow> notify cbs event w = (None, run_all cbs event w)"
proof (induction cbs arbitrary: w)
  case Nil
  then show ?case by (simp add: run_all_def)
next
  case (Cons cb cbs)
  then have "fst (cb event w) = None" by (simp add: returns_normally_def)
  then obtain w1 where w1: "cb event w = (None, w1)" by (cases "cb event w") auto
  with Cons show ?case by (simp add: run_all_def)
qed

lemma notify_first_raise:
  "list_all returns_normally pre \<Longrightarrow> fst (bad event (run_all pre event w)) = Some e \<Longrightarrow>
   notify (pre @ bad # post) event w = (Some e, snd (bad event (run_all pre event w)))"
proof (induction pre arbitrary: w)
  case Nil
  then show ?case by (cases "bad event w") (auto simp: run_all_def)
next
  case (Cons cb pre)
  then have "fst (cb event w) = None" by (simp add: returns_normally_def)
  then obtain w1 where w1: "cb event w = (None, w1)" by (cases "cb event w") auto
  with Cons show ?case by (simp add: run_all_def)
qed

text \<open>
  Claim C5, counterexample.  With a listener that raises registered before a second
  listener, \<^verbatim>\<open>emit\<close> fails with the listener's exception and the second listener is never
  called.
\<close>

theorem emit_fails_and_skips_later_listeners:
  "fst (emit 0 (Member PIPELINE_START) None
         \<lparr>events = [], callbacks = [failing_listener 1, recording_listener 2]\<rparr> [])
     = Inl (CallbackRaised ''listener failed'')
 \<and> snd (snd (emit 0 (Member PIPELINE_START) None
         \<lparr>events = [], callbacks = [failing_listener 1, recording_listener 2]\<rparr> []))
     = [1]"
  by (simp add: emit_def to_EventType_def Let_def new_event_def failing_listener_def
      recording_listener_def)

text \<open>
  Claim C5, amended.  For a valid event type, \<^verbatim>\<open>emit\<close> appends exactly one event, stamped
  with the current time, before any listener runs, whether or not a listener raises.  The
  listeners run in registration order.  When all of them return, \<^verbatim>\<open>emit\<close> returns and all
  have run.  When one raises, the listeners registered before it have run, \<^verbatim>\<open>emit\<close> fails
  with that exception, and the listeners registered after it are not called.
\<close>

theorem emit_records_then_notifies:
  assumes "to_EventType arg = Some t"
  shows "events (fst (snd (emit now arg dat obs w))) = events obs @ [new_event now t dat]
       \<and> callbacks (fst (snd (emit now arg dat obs w))) = callbacks obs
       \<and> (list_all returns_normally (callbacks obs) \<longrightarrow>
            fst (emit now arg dat obs w) = Inr ()
            \<and> snd (snd (emit now arg dat obs w)) = run_all (callbacks obs) (new_event now t dat) w)
       \<and> (callbacks obs = pre @ bad # post \<and> list_all returns_normally pre
            \<and> fst (bad (new_event now t dat) (run_all pre (new_event now t dat) w)) = Some e \<longrightarrow>
            fst (emit now arg dat obs w) = Inl (CallbackRaised e)
            \<and> snd (snd (emit now arg dat obs w))
                = snd (bad (new_event now t dat) (run_all pre (new_event now t dat) w)))"
proof (intro conjI impI)
  show "events (fst (snd (emit now arg dat obs w))) = events obs @ [new_event now t dat]"
    using assms by (simp add: emit_def Let_def split: prod.splits option.splits)
  show "callbacks (fst (snd (emit now arg dat obs w))) = callbacks obs"
    using assms by (simp add: emit_def Let_def split: prod.splits option.splits)
next
  assume a: "list_all returns_normally (callbacks obs)"
  show "fst (emit now arg dat obs w) = Inr ()"
    using assms notify_all_normal [OF a, of "new_event now t dat" w]
    by (simp add: emit_def Let_def)
  show "snd (snd (emit now arg dat obs w)) = run_all (callbacks obs) (new_event now t dat) w"
    using assms notify_all_normal [OF a, of "new_event now t dat" w]
    by (simp add: emit_def Let_def)
next
  assume b: "callbacks obs = pre @ bad # post \<and> list_all returns_normally pre
            \<and> fst (bad (new_event now t dat) (run_all pre (new_event now t dat) w)) = Some e"
  then have n: "notify (callbacks obs) (new_event now t dat) w
      = (Some e, snd (bad (new_event now t dat) (run_all pre (new_event now t dat) w)))"
    using notify_first_raise [of pre bad "new_event now t dat" w e post] by simp
  show "fst (emit now arg dat obs w) = Inl (CallbackRaised e)"
    using assms n by (simp add: emit_def Let_def)
  show "snd (snd (emit now arg dat obs w))
      = snd (bad (new_event now t dat) (run_all pre (new_event now t dat) w))"
    using assms n by (simp add: emit_def Let_def)
qed

theorem emit_records_then_notifies_witness:
  "events (fst (snd (emit 7 (Str ''pipeline_start'') None
       \<lparr>events = [], callbacks = [recording_listener 1, failing_listener 2, recording_listener 3]\<rparr> [])))
     = [\<lparr>timestamp = 7, event_type = PIPELINE_START, event_data = []\<rparr>]
 \<and> fst (emit 7 (Str ''pipeline_start'') None
       \<lparr>events = [], callbacks = [recording_listener 1, failing_listener 2, recording_listener 3]\<rparr> [])
     = Inl (CallbackRaised ''listener failed'')
 \<and> snd (snd (emit 7 (Str ''pipeline_start'') None
       \<lparr>events = [], callbacks = [recording_listener 1, failing_listener 2, recording_listener 3]\<rparr> []))
     = [1, 2]
 \<and> fst (emit 7 (Str ''pipeline_start'') None
       \<lparr>events = [], callbacks = [recording_listener 1, recording_listener 3]\<rparr> [])
     = Inr ()
 \<and> snd (snd (emit 7 (Str ''pipeline_start'') None
       \<lparr>events = [], callbacks = [recording_listener 1, recording_listener 3]\<rparr> []))
     = [1, 3]"
proof -
  have t: "to_EventType (Str ''pipeline_start'') = Some PIPELINE_START"
    by (simp add: to_EventType_def all_event_types_def)
  have r: "returns_normally (recording_listener i)" for i
    by (simp add: returns_normally_def recording_listener_def)
  show ?thesis
    using
      emit_records_then_notifies [OF t, of 7 None
        "\<lparr>events = [], callbacks = [recording_listener 1, failing_listener 2, recording_listener 3]\<rparr>"
        "[]" "[recording_listener 1]" "failing_listener 2" "[recording_listener 3]" "''listener failed''"]
      emit_records_then_notifies [OF t, of 7 None
        "\<lparr>events = [], callbacks = [recording_listener 1, recording_listener 3]\<rparr>"
        "[]" "[]" "failing_listener 2" "[]" "''listener failed''"]
    by (simp add: r new_event_def run_all_def recording_listener_def failing_listener_def)
qed

subsection \<open>Sentence chunkers\<close>

lemma split_chars_grows: "\<exists>ys. fst (split_chars m text ss cur cs) = ss @ ys"
proof (induction cs arbitrary: ss cur)
  case Nil
  then show ?case by simp
next
  case (Cons c cs)
  show ?case
    using Cons.IH [of ss "cur @ [c]"] Cons.IH [of "ss @ [strip (cur @ [c])]" "[]"]
    by (auto simp: Let_def)
qed

lemma split_chars_unbounded_quiet:
  "fst (split_chars 0 text [] cur cs) = [] \<Longrightarrow> split_chars m text [] cur cs = ([], cur @ cs)"
proof (induction cs arbitrary: cur)
  case Nil
  then show ?case by simp
next
  case (Cons c cs)
  let ?cur = "cur @ [c]"
  have nosplit: "\<not> (c \<in> set ''.!?'' \<and> peek_ahead (drop (length ?cur) text) \<and> \<not> is_false_boundary ?cur)"
  proof
    assume a: "c \<in> set ''.!?'' \<and> peek_ahead (drop (length ?cur) text) \<and> \<not> is_false_boundary ?cur"
    then have "split_chars 0 text [] cur (c # cs) = split_chars 0 text [strip ?cur] [] cs"
      by (simp add: Let_def)
    moreover obtain ys where "fst (split_chars 0 text [strip ?cur] [] cs) = [strip ?cur] @ ys"
      using split_chars_grows by blast
    ultimately show False using Cons.prems by simp
  qed
  then have "split_chars 0 text [] cur (c # cs) = split_chars 0 text [] ?cur cs"
    by (auto simp: Let_def)
  with Cons.prems have "fst (split_chars 0 text [] ?cur cs) = []" by simp
  from Cons.IH [OF this] have "split_chars m text [] ?cur cs = ([], ?cur @ cs)" .
  moreover have "split_chars m text [] cur (c # cs) = split_chars m text [] ?cur cs"
    using nosplit by (auto simp: Let_def)
  ultimately show ?case by simp
qed

lemma extract_sentences_held_back:
  assumes "holds_back text"
  shows "extract_sentences m text = (if text = [] then [] else [text])"
proof (cases "text = [] \<or> is_inside_quotes text \<or> ends_with_decimal text \<or> ends_with_url text
      \<or> ends_with_incomplete_ellipsis text \<or> ends_with_abbreviation text")
  case True
  then show ?thesis by (auto simp: extract_sentences_def)
next
  case False
  with assms have "fst (split_chars 0 text [] [] text) = []" by (simp add: holds_back_def)
  then have "split_chars m text [] [] text = ([], text)"
    using split_chars_unbounded_quiet [of "text" "[]" "text" m] by simp
  with False show ?thesis by (simp add: extract_sentences_def)
qed

lemma all_prefixes_take: "list_all P (all_prefixes whole) \<Longrightarrow> P (take k whole)"
proof -
  assume a: "list_all P (all_prefixes whole)"
  have "take k whole = take (min k (length whole)) whole" by (simp add: min_def)
  moreover have "min k (length whole) \<in> set [0..<Suc (length whole)]" by auto
  ultimately have "take k whole \<in> set (all_prefixes whole)"
    unfolding all_prefixes_def by (metis (no_types, lifting) image_eqI set_map)
  with a show ?thesis by (simp add: list_all_iff)
qed

lemma chunk_tokens_fixed_held_back:
  "list_all holds_back (all_prefixes whole) \<Longrightarrow> whole = buffer @ concat toks \<Longrightarrow>
   chunk_tokens_fixed m buffer toks = ([], whole)"
proof (induction toks arbitrary: buffer)
  case Nil
  then show ?case by simp
next
  case (Cons tok toks)
  have "take (length (buffer @ tok)) whole = buffer @ tok" using Cons.prems(2) by simp
  then have hb: "holds_back (buffer @ tok)"
    using all_prefixes_take [OF Cons.prems(1), of "length (buffer @ tok)"] by simp
  have w: "whole = (buffer @ tok) @ concat toks" using Cons.prems(2) by simp
  from Cons.IH [OF Cons.prems(1) w] have ih: "chunk_tokens_fixed m (buffer @ tok) toks = ([], whole)" .
  show ?case
    using ih extract_sentences_held_back [OF hb, of m] by (simp add: Let_def)
qed

lemma concat_chars: "concat (chars text) = text"
  by (induction "text") (simp_all add: chars_def)

lemma held_back_decimal:
  "list_all holds_back (all_prefixes ''The value is 3.14. Next sentence.'')"
  by code_simp

lemma held_back_url:
  "list_all holds_back (all_prefixes ''Visit www.example.com. Done.'')"
  by code_simp

lemma held_back_abbreviation:
  "list_all holds_back (all_prefixes ''Dr. Smith arrived.'')"
  by code_simp

lemma held_back_ellipsis:
  "list_all holds_back (all_prefixes ''Wait... then go.'')"
  by code_simp

lemma final_sentence_examples:
  "final_sentence ''The value is 3.14. Next sentence.'' = [''The value is 3.14. Next sentence.'']"
  "final_sentence ''Visit www.example.com. Done.'' = [''Visit www.example.com. Done.'']"
  "final_sentence ''Dr. Smith arrived.'' = [''Dr. Smith arrived.'']"
  "final_sentence ''Wait... then go.'' = [''Wait... then go.'']"
  by code_simp+

text \<open>
  Claim C2, counterexample.  The basic chunker, with its default minimum length of 10 and
  fed one character per token, emits \<open>The value is 3.\<close> as a sentence: it splits inside
  the number.
\<close>

theorem basic_chunker_splits_decimal:
  "chunk_stream 10 (chars ''The value is 3.14. Next sentence.'')
     = [''The value is 3.'', ''14. Next sentence.'']"
  by code_simp

text \<open>
  Claim C2, amended.  The chunker with the edge-case rules emits each of the four texts as
  one sentence, whatever the minimum sentence length and however the text is cut into
  tokens: it splits neither at \<open>3.14\<close>, nor inside the URL, nor at \<open>Dr.\<close>, nor at the dots
  of the ellipsis.
\<close>

theorem fixed_chunker_keeps_examples_whole:
  assumes "concat token_stream \<in> {''The value is 3.14. Next sentence.'',
             ''Visit www.example.com. Done.'', ''Dr. Smith arrived.'', ''Wait... then go.''}"
  shows "chunk_stream_fixed msl token_stream = [concat token_stream]"
proof -
  have "list_all holds_back (all_prefixes (concat token_stream))"
    using assms held_back_decimal held_back_url held_back_abbreviation held_back_ellipsis
    by auto
  then have "chunk_tokens_fixed msl [] token_stream = ([], concat token_stream)"
    using chunk_tokens_fixed_held_back [of "concat token_stream" "[]" token_stream msl] by simp
  moreover have "final_sentence (concat token_stream) = [concat token_stream]"
    using assms final_sentence_examples by auto
  ultimately show ?thesis by (simp add: chunk_stream_fixed_def)
qed

theorem fixed_chunker_keeps_examples_whole_witness:
  "chunk_stream_fixed 10 (chars ''The value is 3.14. Next sentence.'')
     = [''The value is 3.14. Next sentence.'']
 \<and> chunk_stream_fixed 5 (tokenize ''Visit www.example.com. Done.'')
     = [''Visit www.example.com. Done.'']
 \<and> chunk_stream_fixed 1 (chars ''Dr. Smith arrived.'') = [''Dr. Smith arrived.'']
 \<and> chunk_stream_fixed 5 [''Wait... then go.''] = [''Wait... then go.'']"
proof -
  have t: "concat (tokenize ''Visit www.example.com. Done.'') = ''Visit www.example.com. Done.''"
    by code_simp
  show ?thesis
    using
      fixed_chunker_keeps_examples_whole [of "chars ''The value is 3.14. Next sentence.''" 10]
      fixed_chunker_keeps_examples_whole [of "tokenize ''Visit www.example.com. Done.''" 5]
      fixed_chunker_keeps_examples_whole [of "chars ''Dr. Smith arrived.''" 1]
      fixed_chunker_keeps_examples_whole [of "[''Wait... then go.'']" 5]
    by (simp add: concat_chars t)
qed

lemma has_boundary_iff: "has_sentence_boundary text \<longleftrightarrow> (\<exists>c \<in> set text. c \<in> set ''.!?'')"
  by (auto simp: has_sentence_boundary_def terminators_def)

lemma has_boundary_append:
  "has_sentence_boundary (a @ b) \<longleftrightarrow> has_sentence_boundary a \<or> has_sentence_boundary b"
  by (auto simp: has_boundary_iff)

lemma chunk_tokens_no_terminator:
  "\<not> has_sentence_boundary (buffer @ concat toks) \<Longrightarrow>
   chunk_tokens m buffer toks = ([], buffer @ concat toks)"
proof (induction toks arbitrary: buffer)
  case Nil
  then show ?case by simp
next
  case (Cons tok toks)
  then have nb: "\<not> has_sentence_boundary (buffer @ tok)"
    and rest: "\<not> has_sentence_boundary ((buffer @ tok) @ concat toks)"
    by (simp_all add: has_boundary_append)
  from Cons.IH [OF rest] nb show ?case by (simp add: Let_def)
qed

lemma split_chars_no_terminator:
  "\<not> has_sentence_boundary cs \<Longrightarrow> split_chars m text0 ss cur cs = (ss, cur @ cs)"
proof (induction cs arbitrary: cur)
  case Nil
  then show ?case by simp
next
  case (Cons c cs)
  then have c: "c \<notin> set ''.!?''" and rest: "\<not> has_sentence_boundary cs"
    by (auto simp: has_boundary_iff)
  from Cons.IH [OF rest, of "cur @ [c]"] c show ?case by (simp add: Let_def)
qed

lemma extract_sentences_no_terminator:
  assumes "\<not> has_sentence_boundary text0"
  shows "extract_sentences m text0 = (if text0 = [] then [] else [text0])"
  using split_chars_no_terminator [OF assms, of m text0 "[]" "[]"]
  by (simp add: extract_sentences_def)

lemma chunk_tokens_fixed_no_terminator:
  "\<not> has_sentence_boundary (buffer @ concat toks) \<Longrightarrow>
   chunk_tokens_fixed m buffer toks = ([], buffer @ concat toks)"
proof (induction toks arbitrary: buffer)
  case Nil
  then show ?case by simp
next
  case (Cons tok toks)
  then have nb: "\<not> has_sentence_boundary (buffer @ tok)"
    and rest: "\<not> has_sentence_boundary ((buffer @ tok) @ concat toks)"
    by (simp_all add: has_boundary_append)
  from Cons.IH [OF rest] extract_sentences_no_terminator [OF nb, of m]
  show ?case by (simp add: Let_def)
qed

text \<open>
  For a text without any sentence terminator, however it is cut into tokens and whatever
  the minimum sentence length, each chunker emits the stripped text as its one, final
  sentence, and nothing when the text is blank; when moreover the text is not empty and
  has no whitespace at its ends, concatenating the emitted sentences gives back the text.
\<close>

lemma terminator_free_text_round_trip:
  assumes "\<not> has_sentence_boundary (concat token_stream)"
  shows "chunk_stream msl token_stream = final_sentence (concat token_stream)
       \<and> chunk_stream_fixed msl token_stream = final_sentence (concat token_stream)
       \<and> (concat token_stream \<noteq> [] \<and> strip (concat token_stream) = concat token_stream \<longrightarrow>
            join_space (map strip (chunk_stream msl token_stream)) = concat token_stream
            \<and> join_space (map strip (chunk_stream_fixed msl token_stream)) = concat token_stream)"
proof -
  have a: "chunk_stream msl token_stream = final_sentence (concat token_stream)"
    using chunk_tokens_no_terminator [of "[]" token_stream msl] assms
    by (simp add: chunk_stream_def)
  have b: "chunk_stream_fixed msl token_stream = final_sentence (concat token_stream)"
    using chunk_tokens_fixed_no_terminator [of "[]" token_stream msl] assms
    by (simp add: chunk_stream_fixed_def)
  show ?thesis using a b by (simp add: final_sentence_def)
qed

text \<open>
  Claim C1 (evaluation at the failing inputs).  Two texts of well-formed sentences, fed one
  character per token with a minimum sentence length of 5, are not reproduced.  The basic
  chunker emits the question mark of \<open>Hello! How are you? Fine.\<close> twice.  The chunker
  with the edge-case rules loses the sentence \<open>Wow.\<close> of \<open>Hello! Wow. Good.\<close>: split
  off with its leading space it has 5 characters, stripped it has 4 and is not emitted.
\<close>

theorem round_trip_repeats_and_loses_characters:
  "join_space (map strip (chunk_stream 5 (chars ''Hello! How are you? Fine.'')))
     = ''Hello! How are you? ? Fine.''
 \<and> join_space (map strip (chunk_stream_fixed 5 (chars ''Hello! Wow. Good.''))) = ''Hello! Good.''"
  by code_simp

text \<open>A text of three well-formed sentences is reproduced by the chunker with the
  edge-case rules, fed one character per token.\<close>

lemma fixed_chunker_reconstructs_example:
  "join_space (map strip (chunk_stream_fixed 5 (chars ''Hello! How are you? Fine.'')))
     = ''Hello! How are you? Fine.''"
  by code_simp

subsection \<open>Pipeline\<close>

lemma last_record_event:
  "last (record_event clock t dat evs) = new_event (clock (length evs)) t (Some dat)"
  by (simp add: record_event_def)






text \<open>
  Claim C3 (evaluation at the failing input).  With the basic chunker and a minimum
  sentence length of 5, the response \<open>Hello! How are you? Fine.\<close> streamed by the mock model
  is dispatched to synthesis as three sentences of which the third is \<open>? Fine.\<close>: the
  question mark of the second sentence is emitted twice.
\<close>

theorem basic_chunker_repeats_terminator:
  "process_text (MockLLM ''Hello! How are you? Fine.'') (SentenceChunker 5) MockTTS
     event_clock ''Hello'' []
   = (Inr (), [''Hello!'', ''How are you?'', ''? Fine.''],
      [\<lparr>timestamp = 0, event_type = PIPELINE_START, event_data = [(''text'', PStr ''Hello'')]\<rparr>,
       \<lparr>timestamp = 1, event_type = SENTENCE_READY,
          event_data = [(''sentence'', PStr ''Hello!''), (''length'', PInt 6)]\<rparr>,
       \<lparr>timestamp = 2, event_type = SENTENCE_READY,
          event_data = [(''sentence'', PStr ''How are you?''), (''length'', PInt 12)]\<rparr>,
       \<lparr>timestamp = 3, event_type = SENTENCE_READY,
          event_data = [(''sentence'', PStr ''? Fine.''), (''length'', PInt 7)]\<rparr>,
       \<lparr>timestamp = 4, event_type = PIPELINE_COMPLETE, event_data = [(''text'', PStr ''Hello'')]\<rparr>])"
  by code_simp

text \<open>The same response fed to the basic chunker one character per token gives the same
  three sentences; the chunker with the edge-case rules, fed one character per token, gives
  the three sentences of the response.\<close>

lemma basic_chunker_chars_repeats_terminator:
  "chunk_stream 5 (chars ''Hello! How are you? Fine.'') = [''Hello!'', ''How are you?'', ''? Fine.'']"
  by code_simp

lemma fixed_chunker_chars_three_sentences:
  "chunk_stream_fixed 5 (chars ''Hello! How are you? Fine.'') = [''Hello!'', ''How are you?'', ''Fine.'']"
  by code_simp

lemma fixed_chunker_words_two_sentences:
  "chunk_stream_fixed 5 (tokenize ''Hello! How are you? Fine.'') = [''Hello!'', ''How are you? Fine.'']"
  by code_simp


end
